theory Spec2Isabelle
  imports Main
begin

section \<open>Wire protocol (luogu-socket.ts, lines 7-62)\<close>

text \<open>
  The frames are the tagged unions \<^verbatim>\<open>IncomingMessage\<close> and \<^verbatim>\<open>OutgoingMessage\<close>.
  The first two arguments of every constructor are the channel name and the channel
  parameter. Payloads of type \<^verbatim>\<open>unknown\<close> are kept opaque.
\<close>

type_synonym payload = string

datatype incoming_message =
    ServerBroadcast string string payload
  | JoinResult string string int string
  | ExclusiveKickoff string string payload
  | HeartbeatMessage string string int

fun msg_channel :: "incoming_message \<Rightarrow> string" where
  "msg_channel (ServerBroadcast c p d) = c"
| "msg_channel (JoinResult c p n w) = c"
| "msg_channel (ExclusiveKickoff c p d) = c"
| "msg_channel (HeartbeatMessage c p n) = c"

fun msg_channel_param :: "incoming_message \<Rightarrow> string" where
  "msg_channel_param (ServerBroadcast c p d) = p"
| "msg_channel_param (JoinResult c p n w) = p"
| "msg_channel_param (ExclusiveKickoff c p d) = p"
| "msg_channel_param (HeartbeatMessage c p n) = p"

datatype outgoing_message =
    DataMessage string string payload
  | JoinChannelMessage string string string
  | QuitChannelMessage string string string

section \<open>channelKey (lines 64-66)\<close>

text \<open>
  \<^verbatim>\<open>JSON.stringify([channel, param])\<close>: each string is quoted, with the escapes of
  ECMAScript's QuoteJSONString (the named escapes, \<^verbatim>\<open>\u00xx\<close> in lower-case hex for the
  other control characters), and the two are joined as a JSON array without spaces.
\<close>

definition hex_digit :: "nat \<Rightarrow> char" where
  "hex_digit n = (if n < 10 then char_of (48 + n) else char_of (87 + n))"

definition quote_char :: "char \<Rightarrow> string" where
  "quote_char c =
    (if c = CHR 0x08 then [CHR 0x5C, CHR ''b'']
     else if c = CHR 0x09 then [CHR 0x5C, CHR ''t'']
     else if c = CHR 0x0A then [CHR 0x5C, CHR ''n'']
     else if c = CHR 0x0C then [CHR 0x5C, CHR ''f'']
     else if c = CHR 0x0D then [CHR 0x5C, CHR ''r'']
     else if c = CHR 0x22 then [CHR 0x5C, CHR 0x22]
     else if c = CHR 0x5C then [CHR 0x5C, CHR 0x5C]
     else if of_char c < (32::nat)
       then [CHR 0x5C, CHR ''u'', CHR ''0'', CHR ''0'',
             hex_digit (of_char c div 16), hex_digit (of_char c mod 16)]
     else [c])"

definition json_string :: "string \<Rightarrow> string" where
  "json_string s = CHR 0x22 # concat (map quote_char s) @ [CHR 0x22]"

definition channelKey :: "string \<Rightarrow> string \<Rightarrow> string" where
  "channelKey ch p = ''['' @ json_string ch @ '','' @ json_string p @ '']''"

section \<open>Objects, timers and effects\<close>

text \<open>
  The transport is the \<^verbatim>\<open>ws\<close> library's WebSocket. Of a handle the code reads only
  \<^verbatim>\<open>readyState\<close>; it is created with the url and \<^verbatim>\<open>handshakeTimeout\<close>, and
  \<^verbatim>\<open>send\<close>, \<^verbatim>\<open>ping\<close>, \<^verbatim>\<open>close\<close> and \<^verbatim>\<open>terminate\<close> are called on it. Each handle has
  an identity \<open>ws_id\<close>, so that a fresh handle can be told from the one it replaces.
\<close>

datatype ready_state = CONNECTING | OPEN | CLOSING | CLOSED

record transport =
  ws_id :: nat
  ws_url :: string
  handshakeTimeout :: nat
  readyState :: ready_state

type_synonym handle = nat
type_synonym addr = nat

text \<open>
  The three closures handed to \<^verbatim>\<open>setTimeout\<close>: \<^verbatim>\<open>() => this._join()\<close> of the
  Channel object at an address (line 103), the idle callback of \<^verbatim>\<open>_heartbeat\<close>
  (lines 189-192) and its inner \<^verbatim>\<open>() => this._ws.terminate()\<close> (line 191).
\<close>

datatype callback = JoinRetry addr | IdleElapsed | DeadlineElapsed

text \<open>
  The exceptions: \<^verbatim>\<open>Error("Socket is already open")\<close> of \<^verbatim>\<open>connect\<close> (line 134), and the
  transport's "WebSocket is not open: readyState 0 (CONNECTING)".
\<close>

datatype error = AlreadyOpen | NotOpen

datatype socket_event = OpenEvent | CloseEvent int string | ReconnectEvent int string

datatype channel_event = MessageEvent incoming_message | JoinEvent string | KickEvent incoming_message

text \<open>
  Every call that leaves the two classes is recorded, in program order: calls on the
  transport (with the identity of the handle they go to), \<^verbatim>\<open>setTimeout\<close> and
  \<^verbatim>\<open>clearTimeout\<close>, and \<^verbatim>\<open>emit\<close> on the Socket or on the Channel at an address.
  \<^verbatim>\<open>WsSend\<close> carries the message object that \<^verbatim>\<open>_send\<close> serialises. \<^verbatim>\<open>Uncaught\<close> is
  an exception that leaves a timer callback and reaches the event loop. The lines
  written to the \<^verbatim>\<open>debug\<close> log are left out.
\<close>

datatype effect =
    WsNew nat string nat
  | WsSend nat outgoing_message
  | WsPing nat
  | WsTerminate nat
  | WsClose nat
  | SetTimeout handle nat callback
  | ClearTimeout "handle option"
  | EmitSocket socket_event
  | EmitChannel addr channel_event
  | Uncaught error

text \<open>class Channel (lines 68-73): the fields of one Channel object.\<close>

record channel_obj =
  channel :: string
  param :: string
  exclusiveKey :: string
  joinTimeout :: "handle option"

text \<open>
  class Socket (lines 122-130) with the store it lives in. \<open>channels\<close> is the
  \<^verbatim>\<open>Map<string, Channel>\<close> in insertion order; its values are addresses into \<open>objs\<close>,
  the Channel objects ever constructed (an object stays alive after \<^verbatim>\<open>quit\<close>: the
  consumer and a pending timer closure still hold it). \<open>timers\<close> are the pending
  timeouts of the event loop: handle, delay in milliseconds, callback.
\<close>

record socket =
  url :: string
  ws :: "transport option"
  pingTimeout :: "handle option"
  channels :: "(string \<times> addr) list"
  objs :: "channel_obj list"
  timers :: "(handle \<times> nat \<times> callback) list"
  next_handle :: handle
  next_ws :: nat
  trace :: "effect list"

subsection \<open>Map, timers, EventEmitter, transport calls\<close>

definition map_get :: "('k \<times> 'v) list \<Rightarrow> 'k \<Rightarrow> 'v option" where
  "map_get m k = map_of m k"

definition map_set :: "('k \<times> 'v) list \<Rightarrow> 'k \<Rightarrow> 'v \<Rightarrow> ('k \<times> 'v) list" where
  "map_set m k v =
    (if k \<in> set (map fst m) then map (\<lambda>e. if fst e = k then (k, v) else e) m
     else m @ [(k, v)])"

definition map_delete :: "('k \<times> 'v) list \<Rightarrow> 'k \<Rightarrow> ('k \<times> 'v) list" where
  "map_delete m k = filter (\<lambda>e. fst e \<noteq> k) m"

definition setTimeout :: "callback \<Rightarrow> nat \<Rightarrow> socket \<Rightarrow> handle \<times> socket" where
  "setTimeout cb ms s =
    (next_handle s,
     s\<lparr>timers := timers s @ [(next_handle s, ms, cb)],
       next_handle := Suc (next_handle s),
       trace := trace s @ [SetTimeout (next_handle s) ms cb]\<rparr>)"

definition clearTimeout :: "handle option \<Rightarrow> socket \<Rightarrow> socket" where
  "clearTimeout h s =
    s\<lparr>timers := (case h of None \<Rightarrow> timers s
                 | Some i \<Rightarrow> filter (\<lambda>t. fst t \<noteq> i) (timers s)),
      trace := trace s @ [ClearTimeout h]\<rparr>"

definition emit_socket :: "socket_event \<Rightarrow> socket \<Rightarrow> socket" where
  "emit_socket e s = s\<lparr>trace := trace s @ [EmitSocket e]\<rparr>"

definition emit_channel :: "addr \<Rightarrow> channel_event \<Rightarrow> socket \<Rightarrow> socket" where
  "emit_channel a e s = s\<lparr>trace := trace s @ [EmitChannel a e]\<rparr>"

text \<open>
  A call \<^verbatim>\<open>this._ws.m(...)\<close> goes to the handle \<^verbatim>\<open>_ws\<close> holds at that moment. What the
  transport then does (whether it transmits, how it changes \<^verbatim>\<open>readyState\<close>, which event
  it raises later) is the transport's. \<open>ws_call\<close> is a call that returns: it is
  recorded. \<^verbatim>\<open>terminate()\<close> and \<^verbatim>\<open>close()\<close> return in every state of the transport.
  \<^verbatim>\<open>send()\<close> and \<^verbatim>\<open>ping()\<close> throw on a transport that is CONNECTING, before anything
  is done, and return in every other state. The constructor sets \<^verbatim>\<open>_ws\<close> before any
  other method can run, so the \<open>None\<close> branch is never taken in a state the program
  reaches.
\<close>

definition ws_call :: "(nat \<Rightarrow> effect) \<Rightarrow> socket \<Rightarrow> socket" where
  "ws_call f s = (case ws s of None \<Rightarrow> s | Some t \<Rightarrow> s\<lparr>trace := trace s @ [f (ws_id t)]\<rparr>)"

definition ws_connecting :: "socket \<Rightarrow> bool" where
  "ws_connecting s = (case ws s of None \<Rightarrow> False | Some t \<Rightarrow> readyState t = CONNECTING)"

definition ws_send :: "outgoing_message \<Rightarrow> socket \<Rightarrow> error + socket" where
  "ws_send m s = (if ws_connecting s then Inl NotOpen else Inr (ws_call (\<lambda>i. WsSend i m) s))"

definition ws_ping :: "socket \<Rightarrow> error + socket" where
  "ws_ping s = (if ws_connecting s then Inl NotOpen else Inr (ws_call WsPing s))"

section \<open>class Socket and class Channel\<close>

text \<open>\<^verbatim>\<open>get isOpen\<close> (lines 179-181).\<close>

definition Socket_isOpen :: "socket \<Rightarrow> bool" where
  "Socket_isOpen s = (case ws s of None \<Rightarrow> False | Some t \<Rightarrow> readyState t = OPEN)"

text \<open>\<^verbatim>\<open>_send\<close> (lines 183-186).\<close>

definition Socket_send :: "outgoing_message \<Rightarrow> socket \<Rightarrow> error + socket" where
  "Socket_send m s = ws_send m s"

text \<open>\<^verbatim>\<open>close\<close> (lines 175-177).\<close>

definition Socket_close :: "socket \<Rightarrow> socket" where
  "Socket_close s = ws_call WsClose s"

text \<open>\<^verbatim>\<open>_heartbeat\<close> (lines 188-193): arm the idle timer and remember its handle.\<close>

definition Socket_heartbeat :: "socket \<Rightarrow> socket" where
  "Socket_heartbeat s =
    (let (h, s1) = setTimeout IdleElapsed 10000 s in s1\<lparr>pingTimeout := Some h\<rparr>)"

text \<open>\<^verbatim>\<open>Channel.send\<close> (lines 75-82).\<close>

definition Channel_send :: "addr \<Rightarrow> payload \<Rightarrow> socket \<Rightarrow> error + socket" where
  "Channel_send a obj s =
    (let c = objs s ! a in Socket_send (DataMessage (channel c) (param c) obj) s)"

text \<open>
  \<^verbatim>\<open>Channel.quit\<close> (lines 84-92). When \<^verbatim>\<open>_send\<close> throws, the delete of line 91 is not
  reached.
\<close>

definition Channel_quit :: "addr \<Rightarrow> socket \<Rightarrow> error + socket" where
  "Channel_quit a s =
    (let c = objs s ! a in
     case Socket_send (QuitChannelMessage (channel c) (param c) (exclusiveKey c)) s of
       Inl e \<Rightarrow> Inl e
     | Inr s1 \<Rightarrow>
         Inr (s1\<lparr>channels := map_delete (channels s1) (channelKey (channel c) (param c))\<rparr>))"

text \<open>
  \<^verbatim>\<open>Channel._join\<close> (lines 94-104). Behind the guard the transport is OPEN, where
  \<^verbatim>\<open>_send\<close> returns: the \<open>Inl\<close> branch is never taken.
\<close>

definition Channel_join :: "addr \<Rightarrow> socket \<Rightarrow> socket" where
  "Channel_join a s =
    (if \<not> Socket_isOpen s then s
     else
       let c = objs s ! a in
       case Socket_send (JoinChannelMessage (channel c) (param c) (exclusiveKey c)) s of
         Inl e \<Rightarrow> s
       | Inr s1 \<Rightarrow>
           let (h, s2) = setTimeout (JoinRetry a) 1000 s1
           in s2\<lparr>objs := (objs s2)[a := (objs s2 ! a)\<lparr>joinTimeout := Some h\<rparr>]\<rparr>)"

text \<open>\<^verbatim>\<open>Channel._onMessage\<close> (lines 106-119); a heartbeat frame falls through the switch.\<close>

fun Channel_onMessage :: "addr \<Rightarrow> incoming_message \<Rightarrow> socket \<Rightarrow> socket" where
  "Channel_onMessage a (ServerBroadcast c p d) s =
     emit_channel a (MessageEvent (ServerBroadcast c p d)) s"
| "Channel_onMessage a (JoinResult c p n w) s =
     (let s1 = emit_channel a (JoinEvent w) s in clearTimeout (joinTimeout (objs s1 ! a)) s1)"
| "Channel_onMessage a (ExclusiveKickoff c p d) s =
     emit_channel a (KickEvent (ExclusiveKickoff c p d)) s"
| "Channel_onMessage a (HeartbeatMessage c p n) s = s"

text \<open>
  \<^verbatim>\<open>connect\<close> (lines 132-135): the guard, then \<^verbatim>\<open>new WebSocket(this.url,
  { handshakeTimeout: 10000 })\<close>, which starts in state CONNECTING.
\<close>

definition new_WebSocket :: "socket \<Rightarrow> socket" where
  "new_WebSocket s =
    s\<lparr>ws := Some \<lparr>ws_id = next_ws s, ws_url = url s, handshakeTimeout = 10000,
                  readyState = CONNECTING\<rparr>,
      next_ws := Suc (next_ws s),
      trace := trace s @ [WsNew (next_ws s) (url s) 10000]\<rparr>"

definition Socket_connect :: "socket \<Rightarrow> error + socket" where
  "Socket_connect s =
    (if (case ws s of None \<Rightarrow> False | Some t \<Rightarrow> readyState t \<in> set [CONNECTING, OPEN])
     then Inl AlreadyOpen
     else Inr (new_WebSocket s))"

text \<open>The handlers registered by \<^verbatim>\<open>connect\<close> (lines 136-162).\<close>

definition on_open :: "socket \<Rightarrow> socket" where
  "on_open s =
    (let s1 = fold Channel_join (map snd (channels s)) s;
         s2 = emit_socket OpenEvent s1
     in Socket_heartbeat s2)"

definition on_pong :: "socket \<Rightarrow> socket" where
  "on_pong s = Socket_heartbeat (clearTimeout (pingTimeout s) s)"

text \<open>
  The message handler receives the frame that \<^verbatim>\<open>JSON.parse(String(data))\<close> returned;
  decoding is the payload codec's.
\<close>

definition on_message :: "incoming_message \<Rightarrow> socket \<Rightarrow> socket" where
  "on_message m s =
    (case map_get (channels s) (channelKey (msg_channel m) (msg_channel_param m)) of
       None \<Rightarrow> s
     | Some a \<Rightarrow> Channel_onMessage a m s)"

definition on_close :: "int \<Rightarrow> string \<Rightarrow> socket \<Rightarrow> error + socket" where
  "on_close code reason s =
    (let s1 = clearTimeout (pingTimeout s) s in
     if code \<le> 1000 \<or> code \<ge> 2000 then Inr (emit_socket (CloseEvent code reason) s1)
     else Socket_connect (emit_socket (ReconnectEvent code reason) s1))"

definition on_error :: "socket \<Rightarrow> socket" where
  "on_error s = ws_call WsTerminate s"

text \<open>\<^verbatim>\<open>channel\<close> (lines 165-173); an absent argument takes its default \<^verbatim>\<open>""\<close>.\<close>

definition default_arg :: "string option \<Rightarrow> string" where
  "default_arg x = (case x of None \<Rightarrow> '''' | Some v \<Rightarrow> v)"

definition Socket_channel :: "string \<Rightarrow> string option \<Rightarrow> string option \<Rightarrow> socket \<Rightarrow> addr \<times> socket" where
  "Socket_channel ch param_arg key_arg s =
    (let p = default_arg param_arg;
         k = default_arg key_arg;
         key = channelKey ch p
     in case map_get (channels s) key of
          Some a \<Rightarrow> (a, s)
        | None \<Rightarrow>
            let a = length (objs s);
                s1 = s\<lparr>objs := objs s @ [\<lparr>channel = ch, param = p, exclusiveKey = k,
                                          joinTimeout = None\<rparr>],
                       channels := map_set (channels s) key a\<rparr>
            in (a, Channel_join a s1))"

text \<open>The constructor (lines 127-130).\<close>

definition blank_Socket :: "string \<Rightarrow> socket" where
  "blank_Socket u =
    \<lparr>url = u, ws = None, pingTimeout = None, channels = [], objs = [],
     timers = [], next_handle = 0, next_ws = 0, trace = []\<rparr>"

definition new_Socket :: "string \<Rightarrow> error + socket" where
  "new_Socket u = Socket_connect (blank_Socket u)"

section \<open>The event loop\<close>

text \<open>
  A timeout that fires leaves the pending timers and its callback runs. Time is not
  measured: a timer keeps the delay it was armed with, and a pending timer can fire at
  any later step. When \<^verbatim>\<open>ping()\<close> throws in the idle callback, line 191 is not reached:
  no deadline timer is armed, \<^verbatim>\<open>_pingTimeout\<close> keeps its value, and the exception
  leaves the callback.
\<close>

fun run_callback :: "callback \<Rightarrow> socket \<Rightarrow> socket" where
  "run_callback (JoinRetry a) s = Channel_join a s"
| "run_callback IdleElapsed s =
     (case ws_ping s of
        Inl e \<Rightarrow> s\<lparr>trace := trace s @ [Uncaught e]\<rparr>
      | Inr s1 \<Rightarrow>
          let (h, s2) = setTimeout DeadlineElapsed 1000 s1
          in s2\<lparr>pingTimeout := Some h\<rparr>)"
| "run_callback DeadlineElapsed s = ws_call WsTerminate s"

definition fire_timer :: "handle \<Rightarrow> socket \<Rightarrow> socket" where
  "fire_timer h s =
    (case find (\<lambda>t. fst t = h) (timers s) of
       None \<Rightarrow> s
     | Some t \<Rightarrow> run_callback (snd (snd t)) (s\<lparr>timers := filter (\<lambda>t. fst t \<noteq> h) (timers s)\<rparr>))"

text \<open>
  The transport changes \<^verbatim>\<open>readyState\<close> itself: to OPEN before it raises "open", to
  CLOSED before it raises "close", and to CLOSING when a shutdown has begun.
\<close>

definition set_readyState :: "ready_state \<Rightarrow> socket \<Rightarrow> socket" where
  "set_readyState r s = s\<lparr>ws := map_option (\<lambda>t. t\<lparr>readyState := r\<rparr>) (ws s)\<rparr>"

definition ready :: "socket \<Rightarrow> ready_state option" where
  "ready s = map_option readyState (ws s)"

definition deliver_open :: "socket \<Rightarrow> socket" where
  "deliver_open s = on_open (set_readyState OPEN s)"

definition deliver_close :: "int \<Rightarrow> string \<Rightarrow> socket \<Rightarrow> error + socket" where
  "deliver_close code reason s = on_close code reason (set_readyState CLOSED s)"

text \<open>
  What can happen next: an event of the current transport, a timeout, or a call of
  the consumer on the Socket or on a Channel object it holds. \<open>None\<close>: not possible in
  this state. A call of the consumer that throws leaves the state as it was.
\<close>

datatype event =
    TransportOpen
  | TransportPong
  | TransportMessage incoming_message
  | TransportClose int string
  | TransportError
  | TransportClosing
  | TimerFires handle
  | CallConnect
  | CallChannel string "string option" "string option"
  | CallClose
  | CallSend addr payload
  | CallQuit addr

fun step :: "event \<Rightarrow> socket \<Rightarrow> socket option" where
  "step TransportOpen s =
     (if ready s = Some CONNECTING then Some (deliver_open s) else None)"
| "step TransportPong s =
     (if ready s = Some OPEN \<or> ready s = Some CLOSING then Some (on_pong s) else None)"
| "step (TransportMessage m) s =
     (if ready s = Some OPEN \<or> ready s = Some CLOSING then Some (on_message m s) else None)"
| "step (TransportClose code reason) s =
     (if ready s = None \<or> ready s = Some CLOSED then None
      else case deliver_close code reason s of Inl e \<Rightarrow> None | Inr s' \<Rightarrow> Some s')"
| "step TransportError s =
     (if ready s = None \<or> ready s = Some CLOSED then None else Some (on_error s))"
| "step TransportClosing s =
     (if ready s = Some CONNECTING \<or> ready s = Some OPEN
      then Some (set_readyState CLOSING s) else None)"
| "step (TimerFires h) s =
     (if h \<in> set (map fst (timers s)) then Some (fire_timer h s) else None)"
| "step CallConnect s =
     (case Socket_connect s of Inl e \<Rightarrow> Some s | Inr s' \<Rightarrow> Some s')"
| "step (CallChannel ch p k) s = Some (snd (Socket_channel ch p k s))"
| "step CallClose s = Some (Socket_close s)"
| "step (CallSend a obj) s =
     (if a < length (objs s)
      then (case Channel_send a obj s of Inl e \<Rightarrow> Some s | Inr s' \<Rightarrow> Some s')
      else None)"
| "step (CallQuit a) s =
     (if a < length (objs s)
      then (case Channel_quit a s of Inl e \<Rightarrow> Some s | Inr s' \<Rightarrow> Some s')
      else None)"

fun run :: "event list \<Rightarrow> socket \<Rightarrow> socket option" where
  "run [] s = Some s"
| "run (e # es) s = (case step e s of None \<Rightarrow> None | Some s' \<Rightarrow> run es s')"

inductive reachable :: "socket \<Rightarrow> bool" where
  start: "new_Socket u = Inr s \<Longrightarrow> reachable s"
| after: "reachable s \<Longrightarrow> step e s = Some s' \<Longrightarrow> reachable s'"

text \<open>
  The states a program reaches from one constructor call, by name, for the examples.
\<close>

definition example_url :: string where
  "example_url = ''wss://ws.luogu.com.cn/ws''"

definition after :: "event list \<Rightarrow> socket option" where
  "after es = (case new_Socket example_url of Inl e \<Rightarrow> None | Inr s \<Rightarrow> run es s)"

definition state_after :: "event list \<Rightarrow> socket" where
  "state_after es = (case after es of None \<Rightarrow> blank_Socket example_url | Some s \<Rightarrow> s)"

definition fresh_state :: socket where
  "fresh_state = state_after []"

definition lobby_state :: socket where
  "lobby_state = state_after [TransportOpen, CallChannel ''lobby'' (Some ''42'') None]"

definition closed_state :: socket where
  "closed_state = state_after [TransportOpen, TransportClose 1000 ''bye'']"

text \<open>
  The durations of the source are in milliseconds; the unit of time of the description
  of the protocol is the second.
\<close>

definition time_unit :: nat where
  "time_unit = 1000"

section \<open>Predicates on states\<close>

text \<open>
  The join request of a Channel object, whether an object is in the registry, and
  whether its join request has gone out: on any transport handle, or on the current one.
\<close>


definition join_message :: "channel_obj \<Rightarrow> outgoing_message" where
  "join_message c = JoinChannelMessage (channel c) (param c) (exclusiveKey c)"



definition join_sent_now :: "socket \<Rightarrow> addr \<Rightarrow> bool" where
  "join_sent_now s a =
     (case ws s of None \<Rightarrow> False
      | Some t \<Rightarrow> WsSend (ws_id t) (join_message (objs s ! a)) \<in> set (trace s))"

definition wf_ws :: "socket \<Rightarrow> bool" where
  "wf_ws s = (case ws s of None \<Rightarrow> False | Some t \<Rightarrow> ws_id t < next_ws s)"

definition wf_reg :: "socket \<Rightarrow> bool" where
  "wf_reg s =
     (distinct (map fst (channels s)) \<and> distinct (map snd (channels s)) \<and>
      (\<forall>e \<in> set (channels s). snd e < length (objs s) \<and>
          fst e = channelKey (channel (objs s ! snd e)) (param (objs s ! snd e))))"

definition wf_timers :: "socket \<Rightarrow> bool" where
  "wf_timers s =
     (distinct (map fst (timers s)) \<and> (\<forall>t \<in> set (timers s). fst t < next_handle s))"

definition joined_while_open :: "socket \<Rightarrow> bool" where
  "joined_while_open s =
     (Socket_isOpen s \<longrightarrow> (\<forall>e \<in> set (channels s). join_sent_now s (snd e)))"

definition invariant :: "socket \<Rightarrow> bool" where
  "invariant s = (wf_ws s \<and> wf_reg s \<and> wf_timers s \<and> joined_while_open s)"

text \<open>
  The pending timers without the one a handle names, and whether a handle is pending.
\<close>


definition open_state :: socket where
  "open_state = state_after [TransportOpen]"

definition pending_without :: "handle option \<Rightarrow> socket \<Rightarrow> (handle \<times> nat \<times> callback) list" where
  "pending_without h s =
     (case h of None \<Rightarrow> timers s | Some i \<Rightarrow> filter (\<lambda>t. fst t \<noteq> i) (timers s))"

definition pending :: "socket \<Rightarrow> handle \<Rightarrow> bool" where
  "pending s h = (h \<in> set (map fst (timers s)))"

definition unjoined_state :: socket where
  "unjoined_state = state_after [CallChannel ''lobby'' (Some ''42'') None]"




text \<open>
  How many "join_channel" frames of a Channel object have gone out, the state after
  its retry timer has fired a number of times, and whether a retry of it, one time unit
  long, is pending under the handle it names.
\<close>

definition is_join_of :: "channel_obj \<Rightarrow> effect \<Rightarrow> bool" where
  "is_join_of c e = (case e of WsSend i m \<Rightarrow> m = join_message c | _ \<Rightarrow> False)"

definition join_count :: "socket \<Rightarrow> addr \<Rightarrow> nat" where
  "join_count s a = length (filter (is_join_of (objs s ! a)) (trace s))"

fun retries :: "nat \<Rightarrow> addr \<Rightarrow> socket \<Rightarrow> socket" where
  "retries 0 a s = s"
| "retries (Suc n) a s =
     retries n a (case joinTimeout (objs s ! a) of None \<Rightarrow> s | Some h \<Rightarrow> fire_timer h s)"

definition retrying :: "socket \<Rightarrow> addr \<Rightarrow> bool" where
  "retrying s a =
     (case joinTimeout (objs s ! a) of None \<Rightarrow> False
      | Some h \<Rightarrow> (h, time_unit, JoinRetry a) \<in> set (timers s))"

text \<open>
  A reconnect that completes within the retry delay of a join, then the acknowledgment,
  then the first retry timer.
\<close>

definition retry_leak_events :: "event list" where
  "retry_leak_events =
     [TransportOpen,
      CallChannel ''lobby'' (Some ''42'') None,
      TransportClose 1006 [],
      TransportOpen,
      TransportMessage (JoinResult ''lobby'' ''42'' 1 ''hi''),
      TimerFires 1]"



text \<open>
  Whether an event is a \<^verbatim>\<open>quit()\<close> call on a Channel object of a given (channel, param),
  and a run in which no such call occurs.
\<close>

fun quits_pair :: "string \<Rightarrow> string \<Rightarrow> socket \<Rightarrow> event \<Rightarrow> bool" where
  "quits_pair ch p s (CallQuit b) = (channel (objs s ! b) = ch \<and> param (objs s ! b) = p)"
| "quits_pair ch p s e = False"




text \<open>
  A transport replaced by \<^verbatim>\<open>connect()\<close> while it is closing, two idle timers, one pong.
\<close>

definition ping_leak_events :: "event list" where
  "ping_leak_events =
     [TransportOpen, TransportClosing, CallConnect, TransportOpen,
      TimerFires 0, TimerFires 1, TransportPong, TimerFires 2]"

text \<open>
  The Channel object at an address has a given channel and param and is the one the
  registry holds for them.
\<close>

definition is_channel :: "socket \<Rightarrow> addr \<Rightarrow> string \<Rightarrow> string \<Rightarrow> bool" where
  "is_channel s a ch p =
     (a < length (objs s) \<and> channel (objs s ! a) = ch \<and> param (objs s ! a) = p
      \<and> map_get (channels s) (channelKey ch p) = Some a)"

section \<open>The registry key is injective\<close>

lemma hex_digit_inj: "a < 16 \<Longrightarrow> b < 16 \<Longrightarrow> hex_digit a = hex_digit b \<Longrightarrow> a = b"
  unfolding hex_digit_def
  by (auto simp: char_of_eq_iff take_bit_eq_mod split: if_splits)

lemma of_char_div_mod_eq:
  assumes "(of_char x :: nat) div 16 = of_char y div 16"
    and "(of_char x :: nat) mod 16 = of_char y mod 16"
  shows "x = y"
proof -
  have "(of_char x :: nat) = of_char y"
    using assms by (metis div_mult_mod_eq)
  then show ?thesis by simp
qed

lemma of_char_div16: "(of_char c :: nat) div 16 < 16"
proof -
  have "(of_char c :: nat) < 256" by simp
  then show ?thesis by (intro less_mult_imp_div_less) simp
qed

lemma quote_char_hd: "\<exists>d ds. quote_char c = d # ds \<and> d \<noteq> CHR 0x22"
  unfolding quote_char_def by auto

lemma quote_char_prefix_free: "quote_char x @ u = quote_char y @ v \<Longrightarrow> x = y"
  unfolding quote_char_def
  by (auto split: if_splits dest!: hex_digit_inj[rotated 2]
      intro: of_char_div_mod_eq simp: of_char_div16)

lemma quoted_body_inj:
  "concat (map quote_char xs) @ CHR 0x22 # u = concat (map quote_char ys) @ CHR 0x22 # v
   \<Longrightarrow> xs = ys \<and> u = v"
proof (induction xs arbitrary: ys)
  case Nil
  show ?case
  proof (cases ys)
    case Nil
    with Nil.prems show ?thesis by simp
  next
    case (Cons y ys')
    obtain d ds where "quote_char y = d # ds" "d \<noteq> CHR 0x22"
      using quote_char_hd by blast
    with Nil.prems Cons show ?thesis by simp
  qed
next
  case (Cons x xs)
  show ?case
  proof (cases ys)
    case Nil
    obtain d ds where "quote_char x = d # ds" "d \<noteq> CHR 0x22"
      using quote_char_hd by blast
    with Cons.prems Nil show ?thesis by auto
  next
    case (Cons y ys')
    from Cons.prems Cons
    have eq: "quote_char x @ (concat (map quote_char xs) @ CHR 0x22 # u)
            = quote_char y @ (concat (map quote_char ys') @ CHR 0x22 # v)"
      by simp
    then have xy: "x = y" by (rule quote_char_prefix_free)
    with eq have "concat (map quote_char xs) @ CHR 0x22 # u
                = concat (map quote_char ys') @ CHR 0x22 # v"
      by simp
    then have "xs = ys' \<and> u = v" by (rule Cons.IH)
    with xy Cons show ?thesis by simp
  qed
qed

lemma channelKey_inj: "channelKey c p = channelKey c' p' \<longleftrightarrow> c = c' \<and> p = p'"
proof
  assume "channelKey c p = channelKey c' p'"
  then have e1: "concat (map quote_char c) @ CHR 0x22 # ('','' @ json_string p @ '']'')
               = concat (map quote_char c') @ CHR 0x22 # ('','' @ json_string p' @ '']'')"
    by (simp add: channelKey_def json_string_def)
  then have c: "c = c'" and "'','' @ json_string p @ '']'' = '','' @ json_string p' @ '']''"
    using quoted_body_inj by blast+
  then have "concat (map quote_char p) @ CHR 0x22 # '']''
           = concat (map quote_char p') @ CHR 0x22 # '']''"
    by (simp add: json_string_def)
  then have "p = p'" using quoted_body_inj by blast
  with c show "c = c' \<and> p = p'" by simp
qed auto

section \<open>Invariants of the reachable states\<close>

lemma reachable_run: "reachable s \<Longrightarrow> run es s = Some s' \<Longrightarrow> reachable s'"
proof (induction es arbitrary: s)
  case Nil
  then show ?case by simp
next
  case (Cons e es)
  then obtain s1 where s1: "step e s = Some s1" and r: "run es s1 = Some s'"
    by (auto split: option.splits)
  from Cons.prems(1) s1 have "reachable s1" by (rule reachable.after)
  then show ?case using r by (rule Cons.IH)
qed

lemma reachable_after: "after es = Some s \<Longrightarrow> reachable s"
  unfolding after_def
  by (auto split: sum.splits intro: reachable_run reachable.start)

lemma reachable_state_after: "after es \<noteq> None \<Longrightarrow> reachable (state_after es)"
  by (auto simp: state_after_def intro: reachable_after)

lemmas model_defs = setTimeout_def clearTimeout_def emit_socket_def emit_channel_def
  ws_call_def ws_connecting_def ws_send_def ws_ping_def
  Socket_isOpen_def Socket_send_def Socket_close_def Socket_heartbeat_def
  set_readyState_def ready_def new_WebSocket_def
  Socket_connect_def new_Socket_def blank_Socket_def on_open_def on_pong_def
  on_message_def on_close_def on_error_def Socket_channel_def default_arg_def
  Channel_join_def Channel_quit_def Channel_send_def fire_timer_def deliver_open_def
  deliver_close_def after_def state_after_def example_url_def map_get_def map_set_def
  map_delete_def channelKey_def json_string_def quote_char_def time_unit_def Let_def

lemma reachable_fresh_state: "reachable fresh_state"
  unfolding fresh_state_def by (rule reachable_state_after) (simp add: model_defs)

lemma reachable_lobby_state: "reachable lobby_state"
  unfolding lobby_state_def by (rule reachable_state_after) (simp add: model_defs)

lemma reachable_closed_state: "reachable closed_state"
  unfolding closed_state_def by (rule reachable_state_after) (simp add: model_defs)

lemmas prim_defs = setTimeout_def clearTimeout_def emit_socket_def emit_channel_def
  ws_call_def ws_connecting_def ws_send_def ws_ping_def
  Socket_isOpen_def Socket_send_def Socket_close_def Socket_heartbeat_def
  set_readyState_def ready_def new_WebSocket_def

lemma Channel_join_open:
  assumes "ws s = Some t" "readyState t = OPEN"
  shows "Channel_join a s =
     s\<lparr>timers := timers s @ [(next_handle s, 1000, JoinRetry a)],
       next_handle := Suc (next_handle s),
       trace := trace s @ [WsSend (ws_id t) (join_message (objs s ! a)),
                           SetTimeout (next_handle s) 1000 (JoinRetry a)],
       objs := (objs s)[a := (objs s ! a)\<lparr>joinTimeout := Some (next_handle s)\<rparr>]\<rparr>"
  using assms by (simp add: Channel_join_def prim_defs join_message_def Let_def)

lemma Channel_join_closed:
  "\<not> Socket_isOpen s \<Longrightarrow> Channel_join a s = s"
  by (simp add: Channel_join_def)

lemma Channel_join_frame:
  "url (Channel_join a s) = url s"
  "ws (Channel_join a s) = ws s"
  "pingTimeout (Channel_join a s) = pingTimeout s"
  "channels (Channel_join a s) = channels s"
  "next_ws (Channel_join a s) = next_ws s"
  by (auto simp: Channel_join_def prim_defs Let_def split: option.splits)


lemma Channel_join_length [simp]: "length (objs (Channel_join a s)) = length (objs s)"
  by (auto simp: Channel_join_def prim_defs Let_def split: option.splits)

lemma nth_update_joinTimeout:
  "channel (xs[a := (xs ! a)\<lparr>joinTimeout := h\<rparr>] ! b) = channel (xs ! b)"
  "param (xs[a := (xs ! a)\<lparr>joinTimeout := h\<rparr>] ! b) = param (xs ! b)"
  "exclusiveKey (xs[a := (xs ! a)\<lparr>joinTimeout := h\<rparr>] ! b) = exclusiveKey (xs ! b)"
  by (cases "a < length xs"; cases "a = b"; simp add: list_update_beyond)+

lemma Channel_join_key:
  "channel (objs (Channel_join a s) ! b) = channel (objs s ! b)"
  "param (objs (Channel_join a s) ! b) = param (objs s ! b)"
  "exclusiveKey (objs (Channel_join a s) ! b) = exclusiveKey (objs s ! b)"
  by (auto simp: Channel_join_def prim_defs Let_def nth_update_joinTimeout
      split: option.splits)

lemma Channel_join_trace_mono: "set (trace s) \<subseteq> set (trace (Channel_join a s))"
  by (auto simp: Channel_join_def prim_defs Let_def split: option.splits)

lemma Channel_join_isOpen [simp]: "Socket_isOpen (Channel_join a s) = Socket_isOpen s"
  by (simp add: Socket_isOpen_def Channel_join_frame)

lemma Channel_join_wf_ws: "wf_ws s \<Longrightarrow> wf_ws (Channel_join a s)"
  by (simp add: wf_ws_def Channel_join_frame split: option.splits)

lemma Channel_join_wf_reg: "wf_reg s \<Longrightarrow> wf_reg (Channel_join a s)"
  by (simp add: wf_reg_def Channel_join_frame Channel_join_key)

lemma Channel_join_wf_timers: "wf_timers s \<Longrightarrow> wf_timers (Channel_join a s)"
  by (auto simp: wf_timers_def Channel_join_def prim_defs Let_def split: option.splits)

lemma Channel_join_message [simp]:
  "join_message (objs (Channel_join a s) ! b) = join_message (objs s ! b)"
  by (simp add: join_message_def Channel_join_key)

lemma Channel_join_keeps_sent:
  "join_sent_now s b \<Longrightarrow> join_sent_now (Channel_join a s) b"
  using Channel_join_trace_mono[of s a]
  by (auto simp: join_sent_now_def Channel_join_frame split: option.splits)

lemma Channel_join_sends:
  "Socket_isOpen s \<Longrightarrow> join_sent_now (Channel_join a s) a"
  by (auto simp: join_sent_now_def Channel_join_open Socket_isOpen_def join_message_def
      nth_update_joinTimeout split: option.splits)

lemma fold_join_frame:
  "ws (fold Channel_join as s) = ws s"
  "channels (fold Channel_join as s) = channels s"
  "next_ws (fold Channel_join as s) = next_ws s"
  "pingTimeout (fold Channel_join as s) = pingTimeout s"
  "url (fold Channel_join as s) = url s"
  "length (objs (fold Channel_join as s)) = length (objs s)"
  "Socket_isOpen (fold Channel_join as s) = Socket_isOpen s"
  by (induction as arbitrary: s; simp add: Channel_join_frame)+


lemma fold_join_wf:
  "wf_ws s \<Longrightarrow> wf_ws (fold Channel_join as s)"
  "wf_reg s \<Longrightarrow> wf_reg (fold Channel_join as s)"
  "wf_timers s \<Longrightarrow> wf_timers (fold Channel_join as s)"
  by (induction as arbitrary: s;
      simp add: Channel_join_wf_ws Channel_join_wf_reg Channel_join_wf_timers)+

lemma fold_join_keeps_sent:
  "join_sent_now s b \<Longrightarrow> join_sent_now (fold Channel_join as s) b"
  by (induction as arbitrary: s) (simp_all add: Channel_join_keeps_sent)

lemma fold_join_sends:
  "Socket_isOpen s \<Longrightarrow> a \<in> set as \<Longrightarrow> join_sent_now (fold Channel_join as s) a"
proof (induction as arbitrary: s)
  case Nil
  then show ?case by simp
next
  case (Cons b as)
  show ?case
  proof (cases "a = b")
    case True
    with Cons.prems show ?thesis
      by (simp add: fold_join_keeps_sent Channel_join_sends)
  next
    case False
    with Cons.prems have "a \<in> set as" by simp
    with Cons.IH[of "Channel_join b s"] Cons.prems show ?thesis by simp
  qed
qed


lemma joined_frame:
  assumes "joined_while_open s" "ws s' = ws s" "channels s' = channels s"
    and "objs s' = objs s" "set (trace s) \<subseteq> set (trace s')"
  shows "joined_while_open s'"
  using assms
  by (auto simp: joined_while_open_def join_sent_now_def Socket_isOpen_def split: option.splits)

lemma inv_frame:
  assumes "invariant s" "ws s' = ws s" "channels s' = channels s" "objs s' = objs s"
    and "next_ws s' = next_ws s" "set (trace s) \<subseteq> set (trace s')" "wf_timers s'"
  shows "invariant s'"
  using assms joined_frame[of s s']
  by (auto simp: invariant_def wf_ws_def wf_reg_def split: option.splits)

lemma wf_timers_clear: "wf_timers s \<Longrightarrow> wf_timers (clearTimeout h s)"
  by (auto simp: wf_timers_def clearTimeout_def distinct_map_filter split: option.splits)

lemma wf_timers_set: "wf_timers s \<Longrightarrow> wf_timers (snd (setTimeout cb ms s))"
  by (auto simp: wf_timers_def setTimeout_def)

lemma inv_clearTimeout: "invariant s \<Longrightarrow> invariant (clearTimeout h s)"
  by (rule inv_frame[of s]) (auto simp: invariant_def wf_timers_clear, auto simp: clearTimeout_def)

lemma inv_emit_socket: "invariant s \<Longrightarrow> invariant (emit_socket e s)"
  by (rule inv_frame[of s]) (auto simp: invariant_def emit_socket_def wf_timers_def)

lemma inv_emit_channel: "invariant s \<Longrightarrow> invariant (emit_channel a e s)"
  by (rule inv_frame[of s]) (auto simp: invariant_def emit_channel_def wf_timers_def)

lemma inv_ws_call: "invariant s \<Longrightarrow> invariant (ws_call f s)"
  by (rule inv_frame[of s]) (auto simp: invariant_def ws_call_def wf_timers_def split: option.splits)

lemma inv_heartbeat: "invariant s \<Longrightarrow> invariant (Socket_heartbeat s)"
  by (rule inv_frame[of s])
     (auto simp: invariant_def Socket_heartbeat_def setTimeout_def wf_timers_def)

lemma inv_Channel_join: "invariant s \<Longrightarrow> invariant (Channel_join a s)"
  by (auto simp: invariant_def Channel_join_wf_ws Channel_join_wf_reg Channel_join_wf_timers
      joined_while_open_def Channel_join_frame Channel_join_keeps_sent)

lemma inv_not_open:
  "wf_ws s \<Longrightarrow> wf_reg s \<Longrightarrow> wf_timers s \<Longrightarrow> \<not> Socket_isOpen s \<Longrightarrow> invariant s"
  by (simp add: invariant_def joined_while_open_def)

lemma wf_set_readyState:
  "wf_ws s \<Longrightarrow> wf_ws (set_readyState r s)"
  "wf_reg s \<Longrightarrow> wf_reg (set_readyState r s)"
  "wf_timers s \<Longrightarrow> wf_timers (set_readyState r s)"
  by (auto simp: wf_ws_def wf_reg_def wf_timers_def set_readyState_def split: option.splits)

lemma inv_set_readyState: "invariant s \<Longrightarrow> r \<noteq> OPEN \<Longrightarrow> invariant (set_readyState r s)"
  by (rule inv_not_open)
     (auto simp: invariant_def wf_set_readyState, auto simp: Socket_isOpen_def set_readyState_def
       split: option.splits)

lemma inv_new_WebSocket: "invariant s \<Longrightarrow> invariant (new_WebSocket s)"
  by (rule inv_not_open)
     (auto simp: invariant_def wf_ws_def wf_reg_def wf_timers_def new_WebSocket_def Socket_isOpen_def)

lemma inv_connect: "invariant s \<Longrightarrow> Socket_connect s = Inr s' \<Longrightarrow> invariant s'"
  by (auto simp: Socket_connect_def inv_new_WebSocket split: if_splits)

lemma inv_deliver_open:
  assumes "invariant s"
  shows "invariant (deliver_open s)"
proof -
  let ?s1 = "set_readyState OPEN s"
  let ?s2 = "fold Channel_join (map snd (channels ?s1)) ?s1"
  from assms have wf1: "wf_ws ?s1" "wf_reg ?s1" "wf_timers ?s1"
    by (simp_all add: invariant_def wf_set_readyState)
  from assms have op: "Socket_isOpen ?s1"
    by (auto simp: invariant_def wf_ws_def Socket_isOpen_def set_readyState_def split: option.splits)
  have "joined_while_open ?s2"
    unfolding joined_while_open_def
  proof (intro impI ballI)
    fix e assume "e \<in> set (channels ?s2)"
    then have "snd e \<in> set (map snd (channels ?s1))"
      by (simp add: fold_join_frame)
    with op show "join_sent_now ?s2 (snd e)" by (rule fold_join_sends)
  qed
  with wf1 have "invariant ?s2" by (simp add: invariant_def fold_join_wf)
  then show ?thesis
    by (simp add: deliver_open_def on_open_def Let_def inv_heartbeat inv_emit_socket)
qed

lemma inv_on_pong: "invariant s \<Longrightarrow> invariant (on_pong s)"
  by (simp add: on_pong_def inv_heartbeat inv_clearTimeout)

lemma inv_Channel_onMessage: "invariant s \<Longrightarrow> invariant (Channel_onMessage a m s)"
  by (cases m) (simp_all add: Let_def inv_clearTimeout inv_emit_channel)

lemma inv_on_message: "invariant s \<Longrightarrow> invariant (on_message m s)"
  by (simp add: on_message_def inv_Channel_onMessage split: option.splits)

lemma inv_deliver_close: "invariant s \<Longrightarrow> deliver_close c r s = Inr s' \<Longrightarrow> invariant s'"
  by (auto simp: deliver_close_def on_close_def Let_def split: if_splits
      intro!: inv_emit_socket inv_clearTimeout inv_set_readyState
      elim!: inv_connect[rotated])

lemma inv_on_error: "invariant s \<Longrightarrow> invariant (on_error s)"
  by (simp add: on_error_def inv_ws_call)

lemma inv_run_callback: "invariant s \<Longrightarrow> invariant (run_callback cb s)"
proof (cases cb)
  case (JoinRetry a)
  assume "invariant s" with JoinRetry show ?thesis by (simp add: inv_Channel_join)
next
  case IdleElapsed
  assume i0: "invariant s"
  then have i1: "invariant (ws_call WsPing s)" by (rule inv_ws_call)
  have i2: "invariant (snd (setTimeout DeadlineElapsed 1000 (ws_call WsPing s))\<lparr>pingTimeout :=
       Some (fst (setTimeout DeadlineElapsed 1000 (ws_call WsPing s)))\<rparr>)"
    by (rule inv_frame[OF i1]) (use i1 in \<open>auto simp: setTimeout_def wf_timers_def invariant_def\<close>)
  have i3: "invariant (s\<lparr>trace := trace s @ [Uncaught NotOpen]\<rparr>)"
    by (rule inv_frame[OF i0]) (use i0 in \<open>auto simp: wf_timers_def invariant_def\<close>)
  from IdleElapsed i2 i3 show ?thesis by (simp add: ws_ping_def Let_def split_def)
next
  case DeadlineElapsed
  assume "invariant s" with DeadlineElapsed show ?thesis by (simp add: inv_ws_call)
qed

lemma inv_fire_timer:
  assumes "invariant s"
  shows "invariant (fire_timer h s)"
proof -
  have "invariant (s\<lparr>timers := filter (\<lambda>t. fst t \<noteq> h) (timers s)\<rparr>)"
    by (rule inv_frame[OF assms])
       (use assms in \<open>auto simp: invariant_def wf_timers_def distinct_map_filter\<close>)
  with assms show ?thesis
    by (simp add: fire_timer_def inv_run_callback split: option.splits)
qed

lemma inv_Socket_send: "invariant s \<Longrightarrow> Socket_send m s = Inr s' \<Longrightarrow> invariant s'"
  by (auto simp: Socket_send_def ws_send_def inv_ws_call split: if_splits)

lemma inv_Channel_send: "invariant s \<Longrightarrow> Channel_send a d s = Inr s' \<Longrightarrow> invariant s'"
  by (auto simp: Channel_send_def Let_def dest: inv_Socket_send)

lemma map_get_None_iff: "map_get m k = None \<longleftrightarrow> k \<notin> set (map fst m)"
  by (simp add: map_get_def map_of_eq_None_iff)

lemma map_get_Some_mem: "map_get m k = Some v \<Longrightarrow> (k, v) \<in> set m"
  by (simp add: map_get_def map_of_SomeD)

lemma inv_Channel_quit:
  assumes "invariant s" and "Channel_quit a s = Inr s'"
  shows "invariant s'"
proof -
  let ?c = "objs s ! a"
  let ?k = "channelKey (channel ?c) (param ?c)"
  from assms(2) obtain s1 where
    snd: "Socket_send (QuitChannelMessage (channel ?c) (param ?c) (exclusiveKey ?c)) s = Inr s1"
    and eq: "s' = s1\<lparr>channels := map_delete (channels s1) ?k\<rparr>"
    by (auto simp: Channel_quit_def Let_def split: sum.splits)
  have s1: "invariant s1" using assms(1) snd by (rule inv_Socket_send)
  have "wf_reg (s1\<lparr>channels := map_delete (channels s1) ?k\<rparr>)"
    using s1 by (auto simp: invariant_def wf_reg_def map_delete_def distinct_map_filter)
  moreover have "joined_while_open (s1\<lparr>channels := map_delete (channels s1) ?k\<rparr>)"
    using s1
    by (auto simp: invariant_def joined_while_open_def map_delete_def join_sent_now_def
        Socket_isOpen_def split: option.splits)
  ultimately show ?thesis
    using s1 unfolding eq by (auto simp: invariant_def wf_ws_def wf_timers_def split: option.splits)
qed

lemma inv_Socket_channel:
  assumes "invariant s"
  shows "invariant (snd (Socket_channel ch p k s))"
proof -
  define pp where "pp = default_arg p"
  define kk where "kk = default_arg k"
  define key where "key = channelKey ch pp"
  show ?thesis
  proof (cases "map_get (channels s) key")
    case (Some a)
    with assms show ?thesis
      by (simp add: Socket_channel_def Let_def pp_def key_def)
  next
    case None
    define a where "a = length (objs s)"
    define s1 where "s1 = s\<lparr>objs := objs s @ [\<lparr>channel = ch, param = pp, exclusiveKey = kk,
         joinTimeout = None\<rparr>], channels := map_set (channels s) key a\<rparr>"
    from None have fresh: "key \<notin> set (map fst (channels s))"
      by (simp add: map_get_None_iff)
    then have ch1: "channels s1 = channels s @ [(key, a)]"
      by (simp add: s1_def map_set_def)
    have res: "snd (Socket_channel ch p k s) = Channel_join a s1"
      using None by (simp add: Socket_channel_def Let_def pp_def kk_def key_def a_def s1_def)
    have old: "\<And>e. e \<in> set (channels s) \<Longrightarrow> snd e < length (objs s)"
      using assms by (auto simp: invariant_def wf_reg_def)
    have wf1: "wf_ws s1" "wf_timers s1"
      using assms by (auto simp: invariant_def wf_ws_def wf_timers_def s1_def split: option.splits)
    have "a \<notin> set (map snd (channels s))"
      using old by (fastforce simp: a_def)
    with assms fresh have reg1: "wf_reg s1"
      unfolding wf_reg_def ch1
      by (auto simp: invariant_def wf_reg_def s1_def a_def key_def nth_append)
    have "joined_while_open (Channel_join a s1)"
      unfolding joined_while_open_def
    proof (intro impI ballI)
      fix e
      assume op: "Socket_isOpen (Channel_join a s1)"
        and e: "e \<in> set (channels (Channel_join a s1))"
      from op have op1: "Socket_isOpen s1" by simp
      then have ops: "Socket_isOpen s" by (simp add: Socket_isOpen_def s1_def)
      from e have "e \<in> set (channels s) \<or> e = (key, a)"
        by (auto simp: Channel_join_frame ch1)
      then show "join_sent_now (Channel_join a s1) (snd e)"
      proof
        assume m: "e \<in> set (channels s)"
        with assms ops have "join_sent_now s (snd e)"
          by (auto simp: invariant_def joined_while_open_def)
        moreover from m have "snd e < length (objs s)" by (rule old)
        ultimately have "join_sent_now s1 (snd e)"
          by (auto simp: join_sent_now_def s1_def nth_append split: option.splits)
        then show ?thesis by (rule Channel_join_keeps_sent)
      next
        assume "e = (key, a)"
        with op1 show ?thesis by (simp add: Channel_join_sends)
      qed
    qed
    with wf1 reg1 show ?thesis
      unfolding res
      by (simp add: invariant_def Channel_join_wf_ws Channel_join_wf_reg Channel_join_wf_timers)
  qed
qed

lemma inv_new_Socket: "new_Socket u = Inr s \<Longrightarrow> invariant s"
  by (auto simp: new_Socket_def blank_Socket_def Socket_connect_def new_WebSocket_def invariant_def wf_ws_def
      wf_reg_def wf_timers_def joined_while_open_def Socket_isOpen_def)

lemma inv_step: "invariant s \<Longrightarrow> step e s = Some s' \<Longrightarrow> invariant s'"
proof (cases e)
  case (TransportClose c r)
  assume "invariant s" "step e s = Some s'"
  with TransportClose show ?thesis
    by (auto split: if_splits sum.splits dest: inv_deliver_close)
next
  case CallConnect
  assume "invariant s" "step e s = Some s'"
  with CallConnect show ?thesis
    by (auto split: sum.splits dest: inv_connect)
next
  case (CallSend a d)
  assume "invariant s" "step e s = Some s'"
  with CallSend show ?thesis
    by (auto split: if_splits sum.splits dest: inv_Channel_send)
next
  case (CallQuit a)
  assume "invariant s" "step e s = Some s'"
  with CallQuit show ?thesis
    by (auto split: if_splits sum.splits dest: inv_Channel_quit)
qed (auto split: if_splits simp: inv_deliver_open inv_on_pong inv_on_message inv_on_error
      inv_set_readyState inv_fire_timer inv_Socket_channel inv_ws_call Socket_close_def)

lemma reachable_inv: "reachable s \<Longrightarrow> invariant s"
  by (induction rule: reachable.induct) (auto intro: inv_new_Socket inv_step)

section \<open>Objects, registry and trace from step to step\<close>





lemma objs_simple [simp]:
  "objs (clearTimeout h s) = objs s"
  "objs (emit_socket e s) = objs s"
  "objs (emit_channel b ce s) = objs s"
  "objs (ws_call f s) = objs s"
  "objs (Socket_heartbeat s) = objs s"
  "objs (set_readyState r s) = objs s"
  "objs (new_WebSocket s) = objs s"
  "objs (snd (setTimeout cb ms s)) = objs s"
  by (simp_all add: prim_defs split_def split: option.splits)

lemma channels_simple [simp]:
  "channels (clearTimeout h s) = channels s"
  "channels (emit_socket e s) = channels s"
  "channels (emit_channel b ce s) = channels s"
  "channels (ws_call f s) = channels s"
  "channels (Socket_heartbeat s) = channels s"
  "channels (set_readyState r s) = channels s"
  "channels (new_WebSocket s) = channels s"
  "channels (snd (setTimeout cb ms s)) = channels s"
  by (simp_all add: prim_defs split_def split: option.splits)

lemma trace_simple:
  "set (trace s) \<subseteq> set (trace (clearTimeout h s))"
  "set (trace s) \<subseteq> set (trace (emit_socket e s))"
  "set (trace s) \<subseteq> set (trace (emit_channel b ce s))"
  "set (trace s) \<subseteq> set (trace (ws_call f s))"
  "set (trace s) \<subseteq> set (trace (Socket_heartbeat s))"
  "set (trace s) \<subseteq> set (trace (set_readyState r s))"
  "set (trace s) \<subseteq> set (trace (new_WebSocket s))"
  "set (trace s) \<subseteq> set (trace (snd (setTimeout cb ms s)))"
  by (auto simp: prim_defs split_def split: option.splits)

lemma Socket_send_Inr:
  assumes "Socket_send m s = Inr s'"
  shows "objs s' = objs s" "channels s' = channels s" "set (trace s) \<subseteq> set (trace s')"
    "timers s' = timers s"
  using assms
  by (auto simp: Socket_send_def ws_send_def ws_call_def split: if_splits option.splits)


lemma Socket_send_open: "Socket_isOpen s \<Longrightarrow> Socket_send m s \<noteq> Inl e"
  by (auto simp: Socket_isOpen_def Socket_send_def ws_send_def ws_connecting_def
      split: option.splits)

lemma Socket_send_throws:
  assumes "ws s = Some t" "readyState t = CONNECTING"
  shows "Socket_send m s = Inl NotOpen"
  using assms by (simp add: Socket_send_def ws_send_def ws_connecting_def)


lemma Channel_quit_throws:
  assumes "ws s = Some t" "readyState t = CONNECTING"
  shows "Channel_quit a s = Inl NotOpen"
  using assms by (simp add: Channel_quit_def Let_def Socket_send_throws)

lemma Channel_quit_Inr:
  assumes "Channel_quit a s = Inr s'"
  shows "objs s' = objs s"
    and "channels s' = map_delete (channels s)
                         (channelKey (channel (objs s ! a)) (param (objs s ! a)))"
    and "set (trace s) \<subseteq> set (trace s')"
    and "ws s \<noteq> None \<Longrightarrow>
         \<exists>i. WsSend i (QuitChannelMessage (channel (objs s ! a)) (param (objs s ! a))
             (exclusiveKey (objs s ! a))) \<in> set (trace s')"
  using assms
  by (auto simp: Channel_quit_def Let_def Socket_send_def ws_send_def ws_call_def
      ws_connecting_def split: if_splits option.splits sum.splits)

lemma Channel_send_Inr:
  assumes "Channel_send a d s = Inr s'"
  shows "objs s' = objs s" "channels s' = channels s" "set (trace s) \<subseteq> set (trace s')"
  using assms by (auto simp: Channel_send_def Let_def dest: Socket_send_Inr)

lemma objs_Channel_onMessage [simp]: "objs (Channel_onMessage b m s) = objs s"
  by (cases m) (simp_all add: Let_def)

lemma channels_Channel_onMessage [simp]: "channels (Channel_onMessage b m s) = channels s"
  by (cases m) (simp_all add: Let_def)


lemma fold_join_trace_mono: "set (trace s) \<subseteq> set (trace (fold Channel_join as s))"
proof (induction as arbitrary: s)
  case Nil
  then show ?case by simp
next
  case (Cons a as)
  have "set (trace s) \<subseteq> set (trace (Channel_join a s))" by (rule Channel_join_trace_mono)
  also have "\<dots> \<subseteq> set (trace (fold Channel_join as (Channel_join a s)))" by (rule Cons.IH)
  finally show ?case by simp
qed

lemma run_callback_frame:
  "channels (run_callback cb s) = channels s"
  "length (objs (run_callback cb s)) = length (objs s)"
  "set (trace s) \<subseteq> set (trace (run_callback cb s))"
proof -
  show "channels (run_callback cb s) = channels s"
    by (cases cb) (simp_all add: Channel_join_frame ws_ping_def Let_def split_def)
  show "length (objs (run_callback cb s)) = length (objs s)"
    by (cases cb) (simp_all add: ws_ping_def Let_def split_def)
  show "set (trace s) \<subseteq> set (trace (run_callback cb s))"
    by (cases cb)
       (auto simp: ws_ping_def ws_call_def setTimeout_def Let_def split_def
          split: option.splits dest: subsetD[OF Channel_join_trace_mono])
qed


lemma fire_timer_frame:
  "channels (fire_timer h s) = channels s"
  "length (objs (fire_timer h s)) = length (objs s)"
  "set (trace s) \<subseteq> set (trace (fire_timer h s))"
proof -
  let ?s2 = "s\<lparr>timers := filter (\<lambda>t. fst t \<noteq> h) (timers s)\<rparr>"
  show "channels (fire_timer h s) = channels s"
    by (simp add: fire_timer_def run_callback_frame split: option.splits)
  show "length (objs (fire_timer h s)) = length (objs s)"
    by (simp add: fire_timer_def run_callback_frame split: option.splits)
  show "set (trace s) \<subseteq> set (trace (fire_timer h s))"
    using run_callback_frame(3)[of ?s2]
    by (auto simp: fire_timer_def split: option.splits)
qed


lemma map_get_append_fresh:
  "k \<notin> set (map fst m) \<Longrightarrow> map_get (m @ [(k, v)]) k = Some v"
  by (induction m) (auto simp: map_get_def)

lemma map_get_append_old:
  "map_get m k = Some v \<Longrightarrow> map_get (m @ m') k = Some v"
  by (simp add: map_get_def map_add_Some_iff)

lemma map_get_delete_other:
  "k \<noteq> k' \<Longrightarrow> map_get (map_delete m k') k = map_get m k"
  by (induction m) (auto simp: map_get_def map_delete_def)

lemma Socket_channel_found:
  "map_get (channels s) (channelKey ch (default_arg p)) = Some a
     \<Longrightarrow> Socket_channel ch p k s = (a, s)"
  by (simp add: Socket_channel_def Let_def)

lemma Socket_channel_new:
  assumes "map_get (channels s) (channelKey ch (default_arg p)) = None"
  shows "fst (Socket_channel ch p k s) = length (objs s)"
    and "length (objs (snd (Socket_channel ch p k s))) = Suc (length (objs s))"
    and "channels (snd (Socket_channel ch p k s))
           = channels s @ [(channelKey ch (default_arg p), length (objs s))]"
    and "set (trace s) \<subseteq> set (trace (snd (Socket_channel ch p k s)))"
proof -
  from assms have fresh: "channelKey ch (default_arg p) \<notin> set (map fst (channels s))"
    by (simp add: map_get_None_iff)
  from assms show "fst (Socket_channel ch p k s) = length (objs s)"
    by (simp add: Socket_channel_def Let_def)
  from assms show "length (objs (snd (Socket_channel ch p k s))) = Suc (length (objs s))"
    by (simp add: Socket_channel_def Let_def)
  from assms fresh show "channels (snd (Socket_channel ch p k s))
           = channels s @ [(channelKey ch (default_arg p), length (objs s))]"
    by (simp add: Socket_channel_def Let_def Channel_join_frame map_set_def)
  from assms show "set (trace s) \<subseteq> set (trace (snd (Socket_channel ch p k s)))"
    using Channel_join_trace_mono by (simp add: Socket_channel_def Let_def) fastforce
qed



lemma deliver_open_frame:
  "channels (deliver_open s) = channels s"
  "length (objs (deliver_open s)) = length (objs s)"
  "set (trace s) \<subseteq> set (trace (deliver_open s))"
proof -
  show "channels (deliver_open s) = channels s"
    by (simp add: deliver_open_def on_open_def Let_def fold_join_frame)
  show "length (objs (deliver_open s)) = length (objs s)"
    by (simp add: deliver_open_def on_open_def Let_def fold_join_frame)
  have "set (trace s) \<subseteq> set (trace (fold Channel_join (map snd (channels s))
      (set_readyState OPEN s)))"
    using fold_join_trace_mono[of "set_readyState OPEN s"] by (simp add: set_readyState_def)
  then show "set (trace s) \<subseteq> set (trace (deliver_open s))"
    by (auto simp: deliver_open_def on_open_def Let_def emit_socket_def Socket_heartbeat_def
        setTimeout_def)
qed

lemma deliver_close_frame:
  assumes "deliver_close c r s = Inr s'"
  shows "channels s' = channels s" "objs s' = objs s" "set (trace s) \<subseteq> set (trace s')"
  using assms
  by (auto simp: deliver_close_def on_close_def Socket_connect_def Let_def prim_defs
      split: if_splits option.splits)

lemma Socket_connect_frame:
  assumes "Socket_connect s = Inr s'"
  shows "channels s' = channels s" "objs s' = objs s" "set (trace s) \<subseteq> set (trace s')"
  using assms by (auto simp: Socket_connect_def new_WebSocket_def split: if_splits)


lemma step_registry:
  assumes "step e s = Some s'"
    and "\<forall>ch p k. e \<noteq> CallChannel ch p k" and "\<forall>a. e \<noteq> CallQuit a"
  shows "channels s' = channels s" "length (objs s') = length (objs s)"
proof -
  show "channels s' = channels s"
    using assms
    by (cases e)
       (auto simp: deliver_open_frame fire_timer_frame on_pong_def on_message_def
          on_error_def Socket_close_def
          split: if_splits sum.splits option.splits
          dest: deliver_close_frame Socket_connect_frame Channel_send_Inr)
  show "length (objs s') = length (objs s)"
    using assms
    by (cases e)
       (auto simp: deliver_open_frame fire_timer_frame on_pong_def on_message_def
          on_error_def Socket_close_def
          split: if_splits sum.splits option.splits
          dest: deliver_close_frame Socket_connect_frame Channel_send_Inr)
qed





lemma reachable_wf:
  assumes "reachable s"
  shows "wf_ws s" "wf_reg s" "wf_timers s" "joined_while_open s"
  using reachable_inv[OF assms] by (simp_all add: invariant_def)




lemma step_keeps_entry:
  assumes "reachable s" "step e s = Some s'" "\<not> quits_pair ch p s e"
    and "map_get (channels s) (channelKey ch p) = Some a"
  shows "map_get (channels s') (channelKey ch p) = Some a"
proof -
  have rest: "channels s' = channels s"
    if "\<forall>ch p k. e \<noteq> CallChannel ch p k" "\<forall>b. e \<noteq> CallQuit b"
    using step_registry(1)[OF assms(2) that] .
  show ?thesis
  proof (cases e)
  case (CallChannel ch' p' k)
  show ?thesis
  proof (cases "map_get (channels s) (channelKey ch' (default_arg p'))")
    case (Some b)
    with assms(2,4) CallChannel show ?thesis by (simp add: Socket_channel_found)
  next
    case None
    from assms(2) CallChannel have "s' = snd (Socket_channel ch' p' k s)" by simp
    with assms(4) Socket_channel_new(3)[OF None, of k] show ?thesis
      by (simp add: map_get_append_old)
  qed
next
  case (CallQuit b)
  show ?thesis
  proof (cases "Channel_quit b s")
    case (Inl err)
    with assms(2,4) CallQuit show ?thesis by (simp split: if_splits)
  next
    case (Inr s1)
    with assms(2) CallQuit have s': "s' = s1" by (simp split: if_splits)
    from assms(3) CallQuit
    have "channelKey ch p \<noteq> channelKey (channel (objs s ! b)) (param (objs s ! b))"
      by (auto simp: channelKey_inj)
    with assms(4) show ?thesis
      by (simp add: s' Channel_quit_Inr(2)[OF Inr] map_get_delete_other)
  qed
  qed (use assms(4) in \<open>simp_all add: rest\<close>)
qed



section \<open>Inbound frames without a Channel\<close>

text \<open>
  Claim C5. An inbound frame whose (channel, param) pair is that of no Channel in the
  registry has no effect: the message handler returns the state it was given, so nothing
  is emitted, sent or scheduled, and the handler has no failing branch.
\<close>

theorem unmatched_frame_dropped:
  assumes "reachable s"
    and "\<forall>e \<in> set (channels s).
           (channel (objs s ! snd e), param (objs s ! snd e))
             \<noteq> (msg_channel m, msg_channel_param m)"
  shows "on_message m s = s"
proof -
  have "map_get (channels s) (channelKey (msg_channel m) (msg_channel_param m)) = None"
  proof (rule ccontr)
    assume "\<not> ?thesis"
    then obtain a where
      "map_get (channels s) (channelKey (msg_channel m) (msg_channel_param m)) = Some a"
      by auto
    then have mem: "(channelKey (msg_channel m) (msg_channel_param m), a) \<in> set (channels s)"
      by (rule map_get_Some_mem)
    with reachable_wf(2)[OF assms(1)]
    have "channelKey (msg_channel m) (msg_channel_param m)
            = channelKey (channel (objs s ! a)) (param (objs s ! a))"
      by (auto simp: wf_reg_def)
    then have "(channel (objs s ! a), param (objs s ! a))
                 = (msg_channel m, msg_channel_param m)"
      by (simp add: channelKey_inj)
    with assms(2) mem show False by auto
  qed
  then show ?thesis by (simp add: on_message_def)
qed

text \<open>
  With the one Channel (lobby, 42) registered, a kick for (lobby, 43) changes nothing.
\<close>

theorem unmatched_frame_dropped_witness:
  "map (\<lambda>e. (channel (objs lobby_state ! snd e), param (objs lobby_state ! snd e)))
       (channels lobby_state) = [(''lobby'', ''42'')]
   \<and> on_message (ExclusiveKickoff ''lobby'' ''43'' ''{}'') lobby_state = lobby_state"
  using unmatched_frame_dropped[OF reachable_lobby_state,
      of "ExclusiveKickoff ''lobby'' ''43'' ''{}''"]
  by (simp add: lobby_state_def model_defs)

section \<open>connect\<close>

text \<open>
  Claim C7. \<^verbatim>\<open>connect()\<close> on a Socket whose transport is CONNECTING or OPEN throws
  "Socket is already open" before anything is changed. In every other state it returns
  with \<^verbatim>\<open>_ws\<close> set to a new handle in state CONNECTING, made for the Socket's url with
  a handshake timeout of 10000 ms, and nothing else is changed; in a reachable state
  the new handle is not the one it replaces.
\<close>

theorem connect_guard:
  "(ready s = Some CONNECTING \<or> ready s = Some OPEN \<longrightarrow> Socket_connect s = Inl AlreadyOpen)
   \<and> (\<not> (ready s = Some CONNECTING \<or> ready s = Some OPEN) \<longrightarrow>
        Socket_connect s =
          Inr (s\<lparr>ws := Some \<lparr>ws_id = next_ws s, ws_url = url s, handshakeTimeout = 10000,
                               readyState = CONNECTING\<rparr>,
                 next_ws := Suc (next_ws s),
                 trace := trace s @ [WsNew (next_ws s) (url s) 10000]\<rparr>)
        \<and> (reachable s \<longrightarrow> map_option ws_id (ws s) \<noteq> Some (next_ws s)))"
proof (intro conjI impI)
  assume "ready s = Some CONNECTING \<or> ready s = Some OPEN"
  then show "Socket_connect s = Inl AlreadyOpen"
    by (auto simp: ready_def Socket_connect_def)
next
  assume "\<not> (ready s = Some CONNECTING \<or> ready s = Some OPEN)"
  then show "Socket_connect s =
          Inr (s\<lparr>ws := Some \<lparr>ws_id = next_ws s, ws_url = url s, handshakeTimeout = 10000,
                               readyState = CONNECTING\<rparr>,
                 next_ws := Suc (next_ws s),
                 trace := trace s @ [WsNew (next_ws s) (url s) 10000]\<rparr>)"
    by (auto simp: ready_def Socket_connect_def new_WebSocket_def split: option.splits)
next
  assume "reachable s"
  then have "wf_ws s" by (rule reachable_wf)
  then show "map_option ws_id (ws s) \<noteq> Some (next_ws s)"
    by (auto simp: wf_ws_def split: option.splits)
qed

text \<open>
  Right after the constructor the transport is CONNECTING and a second \<^verbatim>\<open>connect()\<close>
  throws; after a close with code 1000 the call replaces handle 0 by handle 1.
\<close>

theorem connect_guard_witness:
  "ready fresh_state = Some CONNECTING \<and> Socket_connect fresh_state = Inl AlreadyOpen
   \<and> ready closed_state = Some CLOSED
   \<and> map_option ws_id (ws closed_state) = Some 0
   \<and> map_option (\<lambda>s. (ws s, drop 5 (trace s)))
        (case Socket_connect closed_state of Inl e \<Rightarrow> None | Inr s \<Rightarrow> Some s)
       = Some (Some \<lparr>ws_id = 1, ws_url = example_url, handshakeTimeout = 10000,
                      readyState = CONNECTING\<rparr>, [WsNew 1 example_url 10000])"
  using connect_guard[of fresh_state] connect_guard[of closed_state] reachable_closed_state
  by (simp add: fresh_state_def closed_state_def model_defs)

section \<open>Close codes\<close>

lemma reachable_open_state: "reachable open_state"
  unfolding open_state_def by (rule reachable_state_after) (simp add: model_defs)

lemma fresh_state_eq:
  "fresh_state =
     \<lparr>url = example_url,
      ws = Some \<lparr>ws_id = 0, ws_url = example_url, handshakeTimeout = 10000,
                 readyState = CONNECTING\<rparr>,
      pingTimeout = None, channels = [], objs = [], timers = [], next_handle = 0,
      next_ws = 1, trace = [WsNew 0 example_url 10000]\<rparr>"
  by (simp add: fresh_state_def model_defs)

lemma open_state_eq:
  "open_state =
     \<lparr>url = example_url,
      ws = Some \<lparr>ws_id = 0, ws_url = example_url, handshakeTimeout = 10000,
                 readyState = OPEN\<rparr>,
      pingTimeout = Some 0, channels = [], objs = [], timers = [(0, 10000, IdleElapsed)],
      next_handle = 1, next_ws = 1,
      trace = [WsNew 0 example_url 10000, EmitSocket OpenEvent,
               SetTimeout 0 10000 IdleElapsed]\<rparr>"
  by (simp add: open_state_def model_defs)

text \<open>
  Claim C1. The close handler first cancels the timer \<^verbatim>\<open>_pingTimeout\<close> names. For a
  code at most 1000 or at least 2000 it then emits "close" with the code and the reason
  and returns: no transport is created. For every other code it emits "reconnect" with
  the code and the reason and calls \<^verbatim>\<open>connect()\<close>; delivered by the transport, which
  is CLOSED by then, this creates the next handle.
\<close>

theorem close_classification:
  "(code \<le> 1000 \<or> code \<ge> 2000 \<longrightarrow>
      on_close code reason s =
        Inr (s\<lparr>timers := pending_without (pingTimeout s) s,
               trace := trace s @ [ClearTimeout (pingTimeout s),
                                   EmitSocket (CloseEvent code reason)]\<rparr>)
      \<and> deliver_close code reason s =
        Inr (s\<lparr>ws := map_option (\<lambda>t. t\<lparr>readyState := CLOSED\<rparr>) (ws s),
               timers := pending_without (pingTimeout s) s,
               trace := trace s @ [ClearTimeout (pingTimeout s),
                                   EmitSocket (CloseEvent code reason)]\<rparr>))
   \<and> (\<not> (code \<le> 1000 \<or> code \<ge> 2000) \<longrightarrow>
      on_close code reason s =
        Socket_connect (s\<lparr>timers := pending_without (pingTimeout s) s,
               trace := trace s @ [ClearTimeout (pingTimeout s),
                                   EmitSocket (ReconnectEvent code reason)]\<rparr>)
      \<and> deliver_close code reason s =
        Inr (s\<lparr>ws := Some \<lparr>ws_id = next_ws s, ws_url = url s, handshakeTimeout = 10000,
                             readyState = CONNECTING\<rparr>,
               next_ws := Suc (next_ws s),
               timers := pending_without (pingTimeout s) s,
               trace := trace s @ [ClearTimeout (pingTimeout s),
                                   EmitSocket (ReconnectEvent code reason),
                                   WsNew (next_ws s) (url s) 10000]\<rparr>))
   \<and> (\<forall>h. pingTimeout s = Some h \<longrightarrow> \<not> pending (s\<lparr>timers := pending_without (pingTimeout s) s\<rparr>) h)"
  by (auto simp: on_close_def deliver_close_def clearTimeout_def emit_socket_def
      pending_without_def pending_def Socket_connect_def new_WebSocket_def set_readyState_def
      Let_def split: option.splits)

theorem close_classification_witness:
  "map_option (\<lambda>s. (ready s, timers s, drop 3 (trace s))) (case deliver_close 1000 ''bye'' open_state of Inl e \<Rightarrow> None | Inr s \<Rightarrow> Some s)
     = Some (Some CLOSED, [], [ClearTimeout (Some 0), EmitSocket (CloseEvent 1000 ''bye'')])
   \<and> map_option (\<lambda>s. (map_option ws_id (ws s), ready s, timers s, drop 3 (trace s))) (case deliver_close 1006 [] open_state of Inl e \<Rightarrow> None | Inr s \<Rightarrow> Some s)
     = Some (Some 1, Some CONNECTING, [], [ClearTimeout (Some 0), EmitSocket (ReconnectEvent 1006 []),
              WsNew 1 example_url 10000])
   \<and> pingTimeout open_state = Some 0 \<and> pending open_state 0"
  using close_classification[of 1000 "''bye''" open_state]
    close_classification[of 1006 "[]" open_state]
  by (simp add: open_state_def model_defs pending_def pending_without_def)

section \<open>Heartbeat\<close>

lemma find_timer:
  "distinct (map fst ts) \<Longrightarrow> (h, d, cb) \<in> set ts \<Longrightarrow> find (\<lambda>t. fst t = h) ts = Some (h, d, cb)"
  by (induction ts) force+

text \<open>
  Claim C2 says that a pong that arrives before the deadline cancels the deadline timer
  and restarts the idle timer, so that a transport that answers its pings is not
  terminated. The pong handler cancels the timer \<^verbatim>\<open>_pingTimeout\<close> names;
  \<^verbatim>\<open>_heartbeat\<close> and the idle callback overwrite that field without cancelling the
  timer it named, and the open handler calls \<^verbatim>\<open>_heartbeat\<close> with no \<^verbatim>\<open>clearTimeout\<close>
  before it. In the run below the first transport opens (idle timer 0) and begins to
  close, the consumer calls \<^verbatim>\<open>connect()\<close>, which the guard allows, and the second
  transport opens (idle timer 1, timer 0 still pending). Timer 0 fires: a ping, and
  deadline timer 2. Timer 1 fires: a ping, and deadline timer 3, which the field now
  names. The pong cancels timer 3 and arms idle timer 4. Deadline timer 2 is still
  pending and fires: \<^verbatim>\<open>terminate()\<close> is called on the transport that answered.
  The claim also says that the idle timer, when it fires, sends a ping and starts the
  deadline timer. In the second run timer 0 fires while the second transport is still
  CONNECTING: \<^verbatim>\<open>ping()\<close> throws, and no deadline timer is armed.
\<close>

theorem pong_leaves_older_deadline:
  "map_option (\<lambda>s. (trace s, timers s)) (after ping_leak_events) =
     Some ([WsNew 0 example_url 10000,
            EmitSocket OpenEvent,
            SetTimeout 0 10000 IdleElapsed,
            WsNew 1 example_url 10000,
            EmitSocket OpenEvent,
            SetTimeout 1 10000 IdleElapsed,
            WsPing 1,
            SetTimeout 2 1000 DeadlineElapsed,
            WsPing 1,
            SetTimeout 3 1000 DeadlineElapsed,
            ClearTimeout (Some 3),
            SetTimeout 4 10000 IdleElapsed,
            WsTerminate 1],
           [(4, 10000, IdleElapsed)])
   \<and> map_option (\<lambda>s. (trace s, timers s))
         (after [TransportOpen, TransportClosing, CallConnect, TimerFires 0]) =
     Some ([WsNew 0 example_url 10000,
            EmitSocket OpenEvent,
            SetTimeout 0 10000 IdleElapsed,
            WsNew 1 example_url 10000,
            Uncaught NotOpen],
           [])"
  by (simp add: ping_leak_events_def model_defs)

section \<open>The registry\<close>

lemma lobby_state_eq:
  "lobby_state =
     \<lparr>url = example_url,
      ws = Some \<lparr>ws_id = 0, ws_url = example_url, handshakeTimeout = 10000,
                 readyState = OPEN\<rparr>,
      pingTimeout = Some 0,
      channels = [(channelKey ''lobby'' ''42'', 0)],
      objs = [\<lparr>channel = ''lobby'', param = ''42'', exclusiveKey = [],
               joinTimeout = Some 1\<rparr>],
      timers = [(0, 10000, IdleElapsed), (1, 1000, JoinRetry 0)],
      next_handle = 2, next_ws = 1,
      trace = [WsNew 0 example_url 10000, EmitSocket OpenEvent,
               SetTimeout 0 10000 IdleElapsed,
               WsSend 0 (JoinChannelMessage ''lobby'' ''42'' []),
               SetTimeout 1 1000 (JoinRetry 0)]\<rparr>"
  by (simp add: lobby_state_def model_defs)

lemma Socket_channel_registers:
  assumes "reachable s"
  shows "map_get (channels (snd (Socket_channel ch p k s))) (channelKey ch (default_arg p))
           = Some (fst (Socket_channel ch p k s))"
proof (cases "map_get (channels s) (channelKey ch (default_arg p))")
  case (Some a)
  then show ?thesis by (simp add: Socket_channel_def Let_def)
next
  case None
  then have "channelKey ch (default_arg p) \<notin> set (map fst (channels s))"
    by (simp add: map_get_None_iff)
  with None show ?thesis
    by (simp add: Socket_channel_def Let_def Channel_join_frame map_set_def
        map_get_append_fresh)
qed

lemma reachable_Socket_channel:
  "reachable s \<Longrightarrow> reachable (snd (Socket_channel ch p k s))"
  by (rule reachable.after[where e = "CallChannel ch p k"]) simp_all

lemma distinct_snd_same_key:
  "distinct (map snd m) \<Longrightarrow> (k, v) \<in> set m \<Longrightarrow> (k', v) \<in> set m \<Longrightarrow> k = k'"
  by (induction m) force+

lemma registry_entry_is_channel:
  assumes "reachable s" "map_get (channels s) (channelKey ch p) = Some a"
  shows "is_channel s a ch p"
proof -
  from assms(2) have mem: "(channelKey ch p, a) \<in> set (channels s)"
    by (rule map_get_Some_mem)
  with reachable_wf(2)[OF assms(1)]
  have lt: "a < length (objs s)"
    and "channelKey ch p = channelKey (channel (objs s ! a)) (param (objs s ! a))"
    by (auto simp: wf_reg_def)
  then have "channel (objs s ! a) = ch" "param (objs s ! a) = p"
    by (simp_all add: channelKey_inj)
  with lt assms(2) show ?thesis by (simp add: is_channel_def)
qed

text \<open>
  Claim C6. In a reachable state, \<^verbatim>\<open>channel(name, param)\<close> returns a Channel object
  with that name and that parameter (an absent parameter is \<^verbatim>\<open>""\<close>), which the registry
  holds for them. A second call with the same name and the same parameter returns the
  object of the first call and the state the first call left: no object is constructed,
  nothing is sent or scheduled. A call with another parameter, for any name, returns
  another object, a Channel of the name and parameter of that call, and the first
  object is still the Channel the registry holds for its own.
\<close>

theorem same_pair_same_channel:
  assumes "reachable s"
  shows "is_channel (snd (Socket_channel ch p k s)) (fst (Socket_channel ch p k s))
           ch (default_arg p)
       \<and> (default_arg p' = default_arg p \<longrightarrow>
            Socket_channel ch p' k' (snd (Socket_channel ch p k s))
              = (fst (Socket_channel ch p k s), snd (Socket_channel ch p k s)))
       \<and> (default_arg p' \<noteq> default_arg p \<longrightarrow>
            fst (Socket_channel ch' p' k' (snd (Socket_channel ch p k s)))
              \<noteq> fst (Socket_channel ch p k s)
            \<and> is_channel (snd (Socket_channel ch' p' k' (snd (Socket_channel ch p k s))))
                 (fst (Socket_channel ch' p' k' (snd (Socket_channel ch p k s))))
                 ch' (default_arg p')
            \<and> is_channel (snd (Socket_channel ch' p' k' (snd (Socket_channel ch p k s))))
                 (fst (Socket_channel ch p k s)) ch (default_arg p))"
proof (intro conjI impI)
  let ?r = "Socket_channel ch p k s"
  let ?key = "channelKey ch (default_arg p)"
  have r1: "reachable (snd ?r)" using assms by (rule reachable_Socket_channel)
  have reg: "map_get (channels (snd ?r)) ?key = Some (fst ?r)"
    using assms by (rule Socket_channel_registers)
  from r1 reg show "is_channel (snd ?r) (fst ?r) ch (default_arg p)"
    by (rule registry_entry_is_channel)
  {
    assume "default_arg p' = default_arg p"
    with reg show "Socket_channel ch p' k' (snd ?r) = (fst ?r, snd ?r)"
      by (simp add: Socket_channel_found)
  }
  {
    assume ne: "default_arg p' \<noteq> default_arg p"
    let ?r' = "Socket_channel ch' p' k' (snd ?r)"
    let ?key' = "channelKey ch' (default_arg p')"
    from ne have kne: "?key' \<noteq> ?key" by (simp add: channelKey_inj)
    have r2: "reachable (snd ?r')" using r1 by (rule reachable_Socket_channel)
    have reg': "map_get (channels (snd ?r')) ?key' = Some (fst ?r')"
      using r1 by (rule Socket_channel_registers)
    have st: "step (CallChannel ch' p' k') (snd ?r) = Some (snd ?r')" by simp
    have keep: "map_get (channels (snd ?r')) ?key = Some (fst ?r)"
      using r1 st _ reg by (rule step_keeps_entry) simp
    from r2 reg' show "is_channel (snd ?r') (fst ?r') ch' (default_arg p')"
      by (rule registry_entry_is_channel)
    from r2 keep show "is_channel (snd ?r') (fst ?r) ch (default_arg p)"
      by (rule registry_entry_is_channel)
    from reg' have m1: "(?key', fst ?r') \<in> set (channels (snd ?r'))"
      by (rule map_get_Some_mem)
    from keep have m2: "(?key, fst ?r) \<in> set (channels (snd ?r'))"
      by (rule map_get_Some_mem)
    from reachable_wf(2)[OF r2] have "distinct (map snd (channels (snd ?r')))"
      by (simp add: wf_reg_def)
    with m1 m2 kne show "fst ?r' \<noteq> fst ?r"
      by (auto dest: distinct_snd_same_key)
  }
qed

text \<open>
  On a new Socket, (lobby, 42) is object 0 on both calls, whatever key the second call
  passes, and (hall, "") is another object.
\<close>

theorem same_pair_same_channel_witness:
  "is_channel (snd (Socket_channel ''lobby'' (Some ''42'') None fresh_state)) 0 ''lobby'' ''42''
   \<and> Socket_channel ''lobby'' (Some ''42'') (Some ''k'')
         (snd (Socket_channel ''lobby'' (Some ''42'') None fresh_state))
       = (0, snd (Socket_channel ''lobby'' (Some ''42'') None fresh_state))
   \<and> fst (Socket_channel ''lobby'' (Some ''42'') None fresh_state) = 0
   \<and> fst (Socket_channel ''hall'' None None
         (snd (Socket_channel ''lobby'' (Some ''42'') None fresh_state))) \<noteq> 0"
proof -
  have a: "fst (Socket_channel ''lobby'' (Some ''42'') None fresh_state) = 0"
    by (simp add: fresh_state_eq Socket_channel_def Let_def map_get_def)
  from same_pair_same_channel[OF reachable_fresh_state,
      of "''lobby''" "Some ''42''" None "Some ''42''" "Some ''k''" "''lobby''"]
    same_pair_same_channel[OF reachable_fresh_state,
      of "''lobby''" "Some ''42''" None None None "''hall''"]
  show ?thesis
    unfolding a by (simp add: default_arg_def)
qed

section \<open>quit\<close>



lemma unjoined_state_eq:
  "unjoined_state =
     \<lparr>url = example_url,
      ws = Some \<lparr>ws_id = 0, ws_url = example_url, handshakeTimeout = 10000,
                 readyState = CONNECTING\<rparr>,
      pingTimeout = None,
      channels = [(channelKey ''lobby'' ''42'', 0)],
      objs = [\<lparr>channel = ''lobby'', param = ''42'', exclusiveKey = [],
               joinTimeout = None\<rparr>],
      timers = [], next_handle = 0, next_ws = 1,
      trace = [WsNew 0 example_url 10000]\<rparr>"
  by (simp add: unjoined_state_def model_defs)




section \<open>Registered and joined\<close>

lemma reachable_unjoined_state: "reachable unjoined_state"
  unfolding unjoined_state_def by (rule reachable_state_after) (simp add: model_defs)







section \<open>The exclusive key of a Channel\<close>






section \<open>Join and retry\<close>

lemma is_join_of_simps [simp]:
  "is_join_of c (WsSend i m) = (m = join_message c)"
  "is_join_of c (SetTimeout h d cb) = False"
  "is_join_of c (EmitSocket se) = False"
  "is_join_of c (ClearTimeout ho) = False"
  "is_join_of c (WsNew i u d) = False"
  "is_join_of c (WsPing i) = False"
  "is_join_of c (WsTerminate i) = False"
  "is_join_of c (WsClose i) = False"
  "is_join_of c (EmitChannel b ce) = False"
  "is_join_of c (Uncaught err) = False"
  by (simp_all add: is_join_of_def)

lemma join_message_update [simp]:
  "join_message (xs[a := (xs ! a)\<lparr>joinTimeout := h\<rparr>] ! b) = join_message (xs ! b)"
  by (simp add: join_message_def nth_update_joinTimeout)

lemma is_join_of_update [simp]:
  "is_join_of (xs[a := (xs ! a)\<lparr>joinTimeout := h\<rparr>] ! b) = is_join_of (xs ! b)"
  by (rule ext) (simp add: is_join_of_def split: effect.splits)

lemma join_count_Channel_join:
  assumes "Socket_isOpen s"
  shows "join_count (Channel_join a s) b =
           join_count s b + (if join_message (objs s ! a) = join_message (objs s ! b) then 1 else 0)"
proof -
  from assms obtain t where "ws s = Some t" "readyState t = OPEN"
    by (auto simp: Socket_isOpen_def split: option.splits)
  then show ?thesis
    by (simp add: Channel_join_open join_count_def)
qed

lemma retrying_Channel_join:
  assumes "Socket_isOpen s" "a < length (objs s)"
  shows "retrying (Channel_join a s) a"
proof -
  from assms obtain t where "ws s = Some t" "readyState t = OPEN"
    by (auto simp: Socket_isOpen_def split: option.splits)
  with assms(2) show ?thesis
    by (simp add: Channel_join_open retrying_def time_unit_def)
qed

lemma wf_timers_filter:
  "wf_timers s \<Longrightarrow> wf_timers (s\<lparr>timers := filter (\<lambda>t. fst t \<noteq> h) (timers s)\<rparr>)"
  by (auto simp: wf_timers_def distinct_map_filter)

lemma retry_fires:
  assumes "wf_timers s" "Socket_isOpen s" "a < length (objs s)"
    and "joinTimeout (objs s ! a) = Some h" "(h, time_unit, JoinRetry a) \<in> set (timers s)"
  shows "wf_timers (fire_timer h s) \<and> Socket_isOpen (fire_timer h s)
       \<and> a < length (objs (fire_timer h s)) \<and> retrying (fire_timer h s) a
       \<and> join_count (fire_timer h s) a = Suc (join_count s a)"
proof -
  let ?s2 = "s\<lparr>timers := filter (\<lambda>t. fst t \<noteq> h) (timers s)\<rparr>"
  from assms(1,5) have "find (\<lambda>t. fst t = h) (timers s) = Some (h, time_unit, JoinRetry a)"
    by (simp add: wf_timers_def find_timer)
  then have f: "fire_timer h s = Channel_join a ?s2"
    by (simp add: fire_timer_def)
  have o2: "Socket_isOpen ?s2" using assms(2) by (simp add: Socket_isOpen_def)
  have l2: "a < length (objs ?s2)" using assms(3) by simp
  have "join_count ?s2 a = join_count s a" by (simp add: join_count_def)
  with join_count_Channel_join[OF o2, of a a]
  have "join_count (Channel_join a ?s2) a = Suc (join_count s a)" by simp
  moreover have "wf_timers (Channel_join a ?s2)"
    using assms(1) by (intro Channel_join_wf_timers wf_timers_filter)
  moreover have "retrying (Channel_join a ?s2) a"
    using o2 l2 by (rule retrying_Channel_join)
  ultimately show ?thesis
    unfolding f using o2 l2 by simp
qed

lemma retries_count:
  assumes "wf_timers s" "Socket_isOpen s" "a < length (objs s)" "retrying s a"
  shows "join_count (retries n a s) a = join_count s a + n \<and> retrying (retries n a s) a"
  using assms
proof (induction n arbitrary: s)
  case 0
  then show ?case by simp
next
  case (Suc n)
  from Suc.prems(4) obtain h where h: "joinTimeout (objs s ! a) = Some h"
    "(h, time_unit, JoinRetry a) \<in> set (timers s)"
    by (auto simp: retrying_def split: option.splits)
  note r = retry_fires[OF Suc.prems(1,2,3) h]
  from r have "join_count (retries n a (fire_timer h s)) a = join_count (fire_timer h s) a + n
      \<and> retrying (retries n a (fire_timer h s)) a"
    by (intro Suc.IH) simp_all
  with r h show ?case by simp
qed

lemma join_then_retries:
  assumes "reachable s" "Socket_isOpen s" "a < length (objs s)"
  shows "join_count (retries n a (Channel_join a s)) a = join_count s a + n + 1
       \<and> retrying (retries n a (Channel_join a s)) a"
proof -
  have "wf_timers (Channel_join a s)"
    using assms(1) by (intro Channel_join_wf_timers reachable_wf)
  moreover have "Socket_isOpen (Channel_join a s)" using assms(2) by simp
  moreover have "a < length (objs (Channel_join a s))" using assms(3) by simp
  moreover have "retrying (Channel_join a s) a" using assms(2,3) by (rule retrying_Channel_join)
  ultimately have "join_count (retries n a (Channel_join a s)) a
      = join_count (Channel_join a s) a + n \<and> retrying (retries n a (Channel_join a s)) a"
    by (rule retries_count)
  with join_count_Channel_join[OF assms(2), of a a] show ?thesis by simp
qed

lemma fold_join_count_mono:
  "join_count s b \<le> join_count (fold Channel_join as s) b"
proof (induction as arbitrary: s)
  case Nil
  then show ?case by simp
next
  case (Cons a as)
  have "join_count s b \<le> join_count (Channel_join a s) b"
    by (cases "Socket_isOpen s") (simp_all add: join_count_Channel_join Channel_join_closed)
  also have "\<dots> \<le> join_count (fold Channel_join as (Channel_join a s)) b" by (rule Cons.IH)
  finally show ?case by simp
qed

lemma fold_join_count:
  "Socket_isOpen s \<Longrightarrow> b \<in> set as \<Longrightarrow> join_count s b < join_count (fold Channel_join as s) b"
proof (induction as arbitrary: s)
  case Nil
  then show ?case by simp
next
  case (Cons a as)
  show ?case
  proof (cases "a = b")
    case True
    have "join_count s b < join_count (Channel_join b s) b"
      using Cons.prems(1) by (simp add: join_count_Channel_join)
    also have "\<dots> \<le> join_count (fold Channel_join as (Channel_join b s)) b"
      by (rule fold_join_count_mono)
    finally show ?thesis using True by simp
  next
    case False
    have "join_count s b \<le> join_count (Channel_join a s) b"
      using Cons.prems(1) by (simp add: join_count_Channel_join)
    also have "\<dots> < join_count (fold Channel_join as (Channel_join a s)) b"
      using Cons.prems False by (intro Cons.IH) simp_all
    finally show ?thesis by simp
  qed
qed

lemma Channel_join_timers_mono: "set (timers s) \<subseteq> set (timers (Channel_join a s))"
  by (auto simp: Channel_join_def prim_defs Let_def split: option.splits)

lemma fold_join_timers_mono: "set (timers s) \<subseteq> set (timers (fold Channel_join as s))"
proof (induction as arbitrary: s)
  case Nil
  then show ?case by simp
next
  case (Cons a as)
  have "set (timers s) \<subseteq> set (timers (Channel_join a s))" by (rule Channel_join_timers_mono)
  also have "\<dots> \<subseteq> set (timers (fold Channel_join as (Channel_join a s)))" by (rule Cons.IH)
  finally show ?case by simp
qed

lemma fold_join_schedules:
  "Socket_isOpen s \<Longrightarrow> b \<in> set as
     \<Longrightarrow> \<exists>h. (h, time_unit, JoinRetry b) \<in> set (timers (fold Channel_join as s))"
proof (induction as arbitrary: s)
  case Nil
  then show ?case by simp
next
  case (Cons a as)
  show ?case
  proof (cases "a = b")
    case True
    from Cons.prems(1) obtain t where "ws s = Some t" "readyState t = OPEN"
      by (auto simp: Socket_isOpen_def split: option.splits)
    then have "(next_handle s, time_unit, JoinRetry b) \<in> set (timers (Channel_join b s))"
      by (simp add: Channel_join_open time_unit_def)
    with fold_join_timers_mono[of "Channel_join b s" as] True show ?thesis by auto
  next
    case False
    with Cons.prems Cons.IH[of "Channel_join a s"] show ?thesis by simp
  qed
qed

lemma deliver_open_joins:
  assumes "ready s = Some CONNECTING" "e \<in> set (channels s)"
  shows "join_count s (snd e) < join_count (deliver_open s) (snd e)
       \<and> (\<exists>h. (h, time_unit, JoinRetry (snd e)) \<in> set (timers (deliver_open s)))"
proof -
  let ?s1 = "set_readyState OPEN s"
  let ?s2 = "fold Channel_join (map snd (channels ?s1)) ?s1"
  from assms(1) have op: "Socket_isOpen ?s1"
    by (auto simp: ready_def Socket_isOpen_def set_readyState_def)
  from assms(2) have mem: "snd e \<in> set (map snd (channels ?s1))"
    by (simp add: set_readyState_def)
  have c1: "join_count ?s1 (snd e) = join_count s (snd e)"
    by (simp add: join_count_def set_readyState_def)
  have c2: "join_count (deliver_open s) (snd e) = join_count ?s2 (snd e)"
    by (simp add: deliver_open_def on_open_def Let_def join_count_def emit_socket_def
        Socket_heartbeat_def setTimeout_def)
  have t2: "set (timers ?s2) \<subseteq> set (timers (deliver_open s))"
    by (auto simp: deliver_open_def on_open_def Let_def emit_socket_def
        Socket_heartbeat_def setTimeout_def)
  from fold_join_count[OF op mem] c1 c2
  have "join_count s (snd e) < join_count (deliver_open s) (snd e)" by simp
  moreover from fold_join_schedules[OF op mem] t2
  have "\<exists>h. (h, time_unit, JoinRetry (snd e)) \<in> set (timers (deliver_open s))" by blast
  ultimately show ?thesis by simp
qed

lemma join_result_cancels:
  assumes "reachable s" "ws s = Some t" "readyState t = OPEN" "a < length (objs s)"
    and "map_get (channels s) (channelKey (channel (objs s ! a)) (param (objs s ! a))) = Some a"
  shows "on_message (JoinResult (channel (objs s ! a)) (param (objs s ! a)) n w) (Channel_join a s)
         = (Channel_join a s)
             \<lparr>timers := timers s,
              trace := trace (Channel_join a s)
                 @ [EmitChannel a (JoinEvent w), ClearTimeout (Some (next_handle s))]\<rparr>"
proof -
  have "\<forall>x \<in> set (timers s). fst x \<noteq> next_handle s"
    using reachable_wf(3)[OF assms(1)] by (auto simp: wf_timers_def)
  then have "filter (\<lambda>x. fst x \<noteq> next_handle s) (timers s) = timers s"
    by (simp add: filter_id_conv)
  with assms(2-5) show ?thesis
    by (simp add: on_message_def Channel_join_frame Channel_join_open emit_channel_def
        clearTimeout_def Let_def)
qed

text \<open>
  Claim C3. \<^verbatim>\<open>_join\<close> on a Socket that is not open changes nothing. On an open Socket
  it sends one "join_channel" frame with the object's channel, param and exclusiveKey
  and arms a timer of one time unit whose callback is \<^verbatim>\<open>_join\<close> of the same object;
  the object names that timer. While the Socket stays open the retry repeats without
  bound and without backoff: after the timer has fired n times, n + 1 more frames have
  gone out and a retry of one time unit is pending again. A "join_result" for a
  registered Channel cancels the retry its last \<^verbatim>\<open>_join\<close> armed. On every open of the
  transport, a join frame goes out and a retry is armed for every Channel in the
  registry.
\<close>

theorem join_and_retry:
  assumes "reachable s" and "a < length (objs s)" and "ws s = Some t"
  shows "(readyState t \<noteq> OPEN \<longrightarrow> Channel_join a s = s)
    \<and> (readyState t = OPEN \<longrightarrow>
          trace (Channel_join a s)
            = trace s @ [WsSend (ws_id t)
                           (JoinChannelMessage (channel (objs s ! a)) (param (objs s ! a))
                              (exclusiveKey (objs s ! a))),
                         SetTimeout (next_handle s) time_unit (JoinRetry a)]
          \<and> timers (Channel_join a s) = timers s @ [(next_handle s, time_unit, JoinRetry a)]
          \<and> joinTimeout (objs (Channel_join a s) ! a) = Some (next_handle s)
          \<and> run_callback (JoinRetry a) = Channel_join a
          \<and> (\<forall>n. join_count (retries n a (Channel_join a s)) a = join_count s a + n + 1
                 \<and> retrying (retries n a (Channel_join a s)) a)
          \<and> (map_get (channels s) (channelKey (channel (objs s ! a)) (param (objs s ! a)))
                = Some a \<longrightarrow>
              (\<forall>n w. \<not> pending
                 (on_message (JoinResult (channel (objs s ! a)) (param (objs s ! a)) n w)
                    (Channel_join a s))
                 (next_handle s))))
    \<and> (ready s = Some CONNECTING \<longrightarrow>
          (\<forall>e \<in> set (channels s).
             join_count s (snd e) < join_count (deliver_open s) (snd e)
             \<and> (\<exists>h. (h, time_unit, JoinRetry (snd e)) \<in> set (timers (deliver_open s)))))"
proof (intro conjI impI allI ballI)
  assume "readyState t \<noteq> OPEN"
  with assms(3) show "Channel_join a s = s"
    by (simp add: Channel_join_def Socket_isOpen_def)
next
  assume op: "readyState t = OPEN"
  with assms(3) have o: "Socket_isOpen s" by (simp add: Socket_isOpen_def)
  note j = Channel_join_open[OF assms(3) op, of a]
  show "trace (Channel_join a s)
            = trace s @ [WsSend (ws_id t)
                           (JoinChannelMessage (channel (objs s ! a)) (param (objs s ! a))
                              (exclusiveKey (objs s ! a))),
                         SetTimeout (next_handle s) time_unit (JoinRetry a)]"
    by (simp add: j join_message_def time_unit_def)
  show "timers (Channel_join a s) = timers s @ [(next_handle s, time_unit, JoinRetry a)]"
    by (simp add: j time_unit_def)
  show "joinTimeout (objs (Channel_join a s) ! a) = Some (next_handle s)"
    using assms(2) by (simp add: j)
  show "run_callback (JoinRetry a) = Channel_join a"
    by (rule ext) simp
  {
    fix n
    from join_then_retries[OF assms(1) o assms(2), of n]
    show "join_count (retries n a (Channel_join a s)) a = join_count s a + n + 1"
      and "retrying (retries n a (Channel_join a s)) a"
      by simp_all
  }
  {
    fix n w
    assume reg: "map_get (channels s) (channelKey (channel (objs s ! a)) (param (objs s ! a)))
                = Some a"
    have "\<forall>x \<in> set (timers s). fst x \<noteq> next_handle s"
      using reachable_wf(3)[OF assms(1)] by (auto simp: wf_timers_def)
    then show "\<not> pending
                 (on_message (JoinResult (channel (objs s ! a)) (param (objs s ! a)) n w)
                    (Channel_join a s))
                 (next_handle s)"
      unfolding join_result_cancels[OF assms(1,3) op assms(2) reg]
      by (auto simp: pending_def)
  }
next
  fix e
  assume "ready s = Some CONNECTING" "e \<in> set (channels s)"
  then show "join_count s (snd e) < join_count (deliver_open s) (snd e)"
    and "\<exists>h. (h, time_unit, JoinRetry (snd e)) \<in> set (timers (deliver_open s))"
    using deliver_open_joins by blast+
qed

text \<open>
  On a CONNECTING Socket the join of (lobby, 42) does nothing and the open event sends
  it; on the open Socket two firings of the retry make four frames in all, and the
  acknowledgment cancels timer 2.
\<close>

theorem join_and_retry_witness:
  "Channel_join 0 unjoined_state = unjoined_state
   \<and> join_count unjoined_state 0 = 0
   \<and> 0 < join_count (deliver_open unjoined_state) 0
   \<and> join_count lobby_state 0 = 1
   \<and> join_count (retries 2 0 (Channel_join 0 lobby_state)) 0 = 4
   \<and> retrying (retries 2 0 (Channel_join 0 lobby_state)) 0
   \<and> \<not> pending (on_message (JoinResult ''lobby'' ''42'' 1 ''hi'')
                   (Channel_join 0 lobby_state)) 2"
proof -
  have w0: "ws unjoined_state = Some \<lparr>ws_id = 0, ws_url = example_url,
      handshakeTimeout = 10000, readyState = CONNECTING\<rparr>"
    by (simp add: unjoined_state_eq)
  have w1: "ws lobby_state = Some \<lparr>ws_id = 0, ws_url = example_url,
      handshakeTimeout = 10000, readyState = OPEN\<rparr>"
    by (simp add: lobby_state_eq)
  have l0: "0 < length (objs unjoined_state)" by (simp add: unjoined_state_eq)
  have l1: "0 < length (objs lobby_state)" by (simp add: lobby_state_eq)
  note u = join_and_retry[OF reachable_unjoined_state l0 w0]
  note l = join_and_retry[OF reachable_lobby_state l1 w1]
  have a: "Channel_join 0 unjoined_state = unjoined_state"
    using u[THEN conjunct1] by simp
  have c0: "join_count unjoined_state 0 = 0"
    by (simp add: unjoined_state_eq join_count_def)
  have r: "ready unjoined_state = Some CONNECTING"
    by (simp add: unjoined_state_eq ready_def)
  have m: "(channelKey ''lobby'' ''42'', 0) \<in> set (channels unjoined_state)"
    by (simp add: unjoined_state_eq)
  from u[THEN conjunct2, THEN conjunct2, rule_format, OF r m] c0
  have b: "0 < join_count (deliver_open unjoined_state) 0" by simp
  have c1: "join_count lobby_state 0 = 1"
    by (simp add: lobby_state_eq join_count_def join_message_def)
  have nh: "next_handle lobby_state = 2" by (simp add: lobby_state_eq)
  have reg: "map_get (channels lobby_state)
      (channelKey (channel (objs lobby_state ! 0)) (param (objs lobby_state ! 0))) = Some 0"
    by (simp add: lobby_state_eq map_get_def)
  have id: "channel (objs lobby_state ! 0) = ''lobby''" "param (objs lobby_state ! 0) = ''42''"
    by (simp_all add: lobby_state_eq)
  note l2 = l[THEN conjunct2, THEN conjunct1, rule_format]
  have op: "readyState \<lparr>ws_id = 0, ws_url = example_url,
      handshakeTimeout = 10000, readyState = OPEN\<rparr> = OPEN" by simp
  from l2[OF op] have
    d: "join_count (retries 2 0 (Channel_join 0 lobby_state)) 0 = join_count lobby_state 0 + 2 + 1"
    and e: "retrying (retries 2 0 (Channel_join 0 lobby_state)) 0"
    and f: "\<not> pending (on_message (JoinResult (channel (objs lobby_state ! 0))
               (param (objs lobby_state ! 0)) 1 ''hi'') (Channel_join 0 lobby_state))
             (next_handle lobby_state)"
    using reg by blast+
  from a c0 b c1 d e f show ?thesis by (simp add: id nh)
qed

section \<open>The acknowledgment and an older retry\<close>

text \<open>
  Claim C4 says that after a "join_result" no further join frames are sent for that
  Channel until the next reconnect. \<^verbatim>\<open>_onMessage\<close> cancels the timer that
  \<^verbatim>\<open>_joinTimeout\<close> names, and \<^verbatim>\<open>_join\<close> overwrites that field without cancelling the
  timer it named. In the run below the Channel is requested on the open Socket (retry
  timer 1), the transport closes with code 1006 and the next one opens before timer 1
  is due (the open handler's join arms timer 2), the "join_result" arrives ("join" is
  emitted once, timer 2 is cancelled), and then timer 1 fires: a third "join_channel"
  frame goes out on transport 1, with no reconnect after the acknowledgment, and
  retry timer 4 is pending.
\<close>

theorem join_result_leaves_older_retry:
  "map_option (\<lambda>s. (trace s, timers s)) (after retry_leak_events) =
     Some ([WsNew 0 example_url 10000,
            EmitSocket OpenEvent,
            SetTimeout 0 10000 IdleElapsed,
            WsSend 0 (JoinChannelMessage ''lobby'' ''42'' []),
            SetTimeout 1 1000 (JoinRetry 0),
            ClearTimeout (Some 0),
            EmitSocket (ReconnectEvent 1006 []),
            WsNew 1 example_url 10000,
            WsSend 1 (JoinChannelMessage ''lobby'' ''42'' []),
            SetTimeout 2 1000 (JoinRetry 0),
            EmitSocket OpenEvent,
            SetTimeout 3 10000 IdleElapsed,
            EmitChannel 0 (JoinEvent ''hi''),
            ClearTimeout (Some 2),
            WsSend 1 (JoinChannelMessage ''lobby'' ''42'' []),
            SetTimeout 4 1000 (JoinRetry 0)],
           [(3, 10000, IdleElapsed), (4, 1000, JoinRetry 0)])"
  by (simp add: retry_leak_events_def model_defs)

end
